theory Spec2Isabelle
  imports Complex_Main
begin

section \<open>Exceptions\<close>

text \<open>
  Python exceptions that the modelled code raises or catches are values of one datatype.
  A function that may raise returns \<open>exn + 'a\<close>, with \<open>Inl\<close> carrying the exception.
  Only subclasses of \<open>Exception\<close> are modelled; every handler in the modelled code is
  \<open>except Exception\<close>, a bare \<open>except\<close>, or names one of these classes.
\<close>

datatype exn =
    ValueError
  | IndexError
  | KeyError
  | ZeroDivisionError
  | Full
  | Empty
  | RuntimeError string

section \<open>Acquisition queue (controllers/sdr\_controller\_v2.py)\<close>

text \<open>
  \<open>queue.Queue(maxsize)\<close> seen from its single producer: the queued items, oldest first.
  \<open>put_nowait\<close> raises \<open>Full\<close> when \<open>0 < maxsize <= qsize\<close>, \<open>get_nowait\<close> raises
  \<open>Empty\<close> on an empty queue; neither ever waits.
\<close>

record 'a Queue =
  maxsize :: int
  items :: "'a list"

definition Queue_init :: "int \<Rightarrow> 'a Queue" where
  "Queue_init m = \<lparr>maxsize = m, items = []\<rparr>"

definition qsize :: "'a Queue \<Rightarrow> nat" where
  "qsize q = length (items q)"

definition full :: "'a Queue \<Rightarrow> bool" where
  "full q = (0 < maxsize q \<and> maxsize q \<le> int (qsize q))"

definition put_nowait :: "'a Queue \<Rightarrow> 'a \<Rightarrow> exn + 'a Queue" where
  "put_nowait q x = (if full q then Inl Full else Inr (q\<lparr>items := items q @ [x]\<rparr>))"

definition get_nowait :: "'a Queue \<Rightarrow> exn + ('a \<times> 'a Queue)" where
  "get_nowait q =
     (case items q of
        [] \<Rightarrow> Inl Empty
      | x # xs \<Rightarrow> Inr (x, q\<lparr>items := xs\<rparr>))"

text \<open>
  The part of \<open>WebSDRControllerV2\<close> that the acquisition worker touches:
  \<open>self.data_queue = Queue(maxsize=10)\<close> and \<open>self.stats['samples_processed']\<close>.
\<close>

record 'a controller =
  data_queue :: "'a list Queue"
  samples_processed :: nat

definition controller_init :: "'a controller" where
  "controller_init = \<lparr>data_queue = Queue_init 10, samples_processed = 0\<rparr>"

text \<open>
  The enqueue of \<open>_acquisition_worker\<close>:
  \<^verbatim>\<open>
  try:
      self.data_queue.put_nowait(samples)
  except:
      try:
          self.data_queue.get_nowait()
          self.data_queue.put_nowait(samples)
      except Empty:
          pass
  \<close>
  The result is the exception that leaves the statement, if any, and the queue afterwards.
  Only \<open>Empty\<close> is handled by the inner handler; a \<open>Full\<close> raised by the second
  \<open>put_nowait\<close> leaves the statement after the oldest chunk has been removed.
\<close>

definition enqueue_chunk :: "'a Queue \<Rightarrow> 'a \<Rightarrow> exn option \<times> 'a Queue" where
  "enqueue_chunk q samples =
     (case put_nowait q samples of
        Inr q1 \<Rightarrow> (None, q1)
      | Inl _ \<Rightarrow>
          (case get_nowait q of
             Inl e \<Rightarrow> (if e = Empty then (None, q) else (Some e, q))
           | Inr (_, q1) \<Rightarrow>
               (case put_nowait q1 samples of
                  Inr q2 \<Rightarrow> (None, q2)
                | Inl e \<Rightarrow> (if e = Empty then (None, q1) else (Some e, q1)))))"

text \<open>
  The loop of \<open>_acquisition_worker\<close>, run over the outcomes of the successive
  \<open>self.sdr.read_samples(read_size)\<close> calls (\<open>Inl\<close>: the read raised). The list ends where
  \<open>self.is_running\<close> is found false. Any exception inside the loop body ends the loop
  (\<open>except Exception: ... break\<close>); the counter is updated only after a completed enqueue.
\<close>

fun acquisition_worker :: "'a controller \<Rightarrow> (exn + 'a list) list \<Rightarrow> 'a controller" where
  "acquisition_worker c [] = c"
| "acquisition_worker c (Inl e # reads) = c"
| "acquisition_worker c (Inr samples # reads) =
     (case enqueue_chunk (data_queue c) samples of
        (Some e, q) \<Rightarrow> c\<lparr>data_queue := q\<rparr>
      | (None, q) \<Rightarrow>
          acquisition_worker
            (c\<lparr>data_queue := q,
               samples_processed := samples_processed c + length samples\<rparr>) reads)"

section \<open>Plugin supervisor (pipeline/plugin\_supervisor.py)\<close>

text \<open>
  A plugin is an object with a \<open>name\<close> and a \<open>process(data)\<close> coroutine that returns a value
  or raises. Plugins keep state of their own and share the DSP objects, so \<open>process\<close> acts on
  a world \<open>'w\<close> that is passed from call to call; the loop clock
  (\<open>asyncio.get_event_loop().time()\<close>) is read from the world by \<open>now\<close>.
  The tasks that \<open>asyncio.gather\<close> runs concurrently are run here one after the other, in
  plugin order.
\<close>

record ('d, 'r, 'w) plugin =
  name :: string
  process :: "'d \<Rightarrow> 'w \<Rightarrow> (exn + 'r) \<times> 'w"

record 'r PluginResult =
  plugin_name :: string
  success :: bool
  data :: "'r option"
  error :: "exn option"
  execution_time_ms :: real

text \<open>One entry \<open>{'success': n, 'failure': m}\<close> of \<open>plugin_stats\<close>.\<close>

record counters =
  n_success :: nat
  n_failure :: nat

record ('d, 'r, 'w) PluginSupervisor =
  plugins :: "('d, 'r, 'w) plugin list"
  supervisor_name :: string
  total_executions :: nat
  total_failures :: nat
  plugin_stats :: "string \<rightharpoonup> counters"

definition PluginSupervisor_init ::
  "('d, 'r, 'w) plugin list \<Rightarrow> string \<Rightarrow> ('d, 'r, 'w) PluginSupervisor" where
  "PluginSupervisor_init ps nm =
     \<lparr>plugins = ps, supervisor_name = nm, total_executions = 0, total_failures = 0,
      plugin_stats = map_of (map (\<lambda>p. (name p, \<lparr>n_success = 0, n_failure = 0\<rparr>)) ps)\<rparr>"

text \<open>
  \<open>_safe_execute\<close>: the clock is read, the plugin is run inside \<open>try\<close>, and both the normal
  return and the \<open>except Exception\<close> handler read the clock again and build a
  \<open>PluginResult\<close>.
\<close>

definition safe_execute ::
  "('w \<Rightarrow> real) \<Rightarrow> ('d, 'r, 'w) plugin \<Rightarrow> 'd \<Rightarrow> 'w \<Rightarrow> 'r PluginResult \<times> 'w" where
  "safe_execute now p d w =
     (let start_time = now w;
          (outcome, w1) = process p d w;
          execution_time = (now w1 - start_time) * 1000
      in (case outcome of
            Inr result \<Rightarrow>
              \<lparr>plugin_name = name p, success = True, data = Some result, error = None,
               execution_time_ms = execution_time\<rparr>
          | Inl e \<Rightarrow>
              \<lparr>plugin_name = name p, success = False, data = None, error = Some e,
               execution_time_ms = execution_time\<rparr>,
          w1))"

text \<open>The tasks \<open>[self._safe_execute(plugin, data) for plugin in self.plugins]\<close>, awaited.\<close>

fun run_tasks ::
  "('w \<Rightarrow> real) \<Rightarrow> ('d, 'r, 'w) plugin list \<Rightarrow> 'd \<Rightarrow> 'w \<Rightarrow> 'r PluginResult list \<times> 'w" where
  "run_tasks now [] d w = ([], w)"
| "run_tasks now (p # ps) d w =
     (let (r, w1) = safe_execute now p d w;
          (rs, w2) = run_tasks now ps d w1
      in (r # rs, w2))"

text \<open>
  \<open>asyncio.gather(*tasks, return_exceptions=True)\<close> yields, for each task in order, the value
  it returned, or the exception it raised. A \<open>_safe_execute\<close> task always returns.
\<close>

definition gather ::
  "('w \<Rightarrow> real) \<Rightarrow> ('d, 'r, 'w) plugin list \<Rightarrow> 'd \<Rightarrow> 'w
     \<Rightarrow> (exn + 'r PluginResult) list \<times> 'w" where
  "gather now ps d w = (let (rs, w1) = run_tasks now ps d w in (map Inr rs, w1))"

text \<open>
  The body of \<open>for result in results\<close>. \<open>self.plugin_stats[result.plugin_name]\<close> raises
  \<open>KeyError\<close> for a name that is not a key.
\<close>

definition analyze_result ::
  "('d, 'r, 'w) PluginSupervisor \<Rightarrow> exn + 'r PluginResult \<Rightarrow> exn + ('d, 'r, 'w) PluginSupervisor" where
  "analyze_result s result =
     (case result of
        Inr r \<Rightarrow>
          (case plugin_stats s (plugin_name r) of
             None \<Rightarrow> Inl KeyError
           | Some c \<Rightarrow>
               if success r
               then Inr (s\<lparr>plugin_stats :=
                             (plugin_stats s)(plugin_name r \<mapsto> c\<lparr>n_success := n_success c + 1\<rparr>)\<rparr>)
               else Inr (s\<lparr>plugin_stats :=
                             (plugin_stats s)(plugin_name r \<mapsto> c\<lparr>n_failure := n_failure c + 1\<rparr>),
                           total_failures := total_failures s + 1\<rparr>))
      | Inl e \<Rightarrow> Inr (s\<lparr>total_failures := total_failures s + 1\<rparr>))"

fun analyze_results ::
  "('d, 'r, 'w) PluginSupervisor \<Rightarrow> (exn + 'r PluginResult) list
     \<Rightarrow> exn + ('d, 'r, 'w) PluginSupervisor" where
  "analyze_results s [] = Inr s"
| "analyze_results s (result # results) =
     (case analyze_result s result of
        Inl e \<Rightarrow> Inl e
      | Inr s1 \<Rightarrow> analyze_results s1 results)"

text \<open>
  \<open>run_with_supervision\<close>: count the execution, run all plugins, update the statistics,
  return \<open>results\<close>. \<open>Inl\<close> is an exception reaching the caller.
\<close>

definition run_with_supervision ::
  "('w \<Rightarrow> real) \<Rightarrow> ('d, 'r, 'w) PluginSupervisor \<Rightarrow> 'd \<Rightarrow> 'w
     \<Rightarrow> exn + ((exn + 'r PluginResult) list \<times> ('d, 'r, 'w) PluginSupervisor \<times> 'w)" where
  "run_with_supervision now s d w =
     (let s1 = s\<lparr>total_executions := total_executions s + 1\<rparr>;
          (results, w1) = gather now (plugins s1) d w
      in (case analyze_results s1 results of
            Inl e \<Rightarrow> Inl e
          | Inr s2 \<Rightarrow> Inr (results, s2, w1)))"

text \<open>
  Repeated dispatch, as in the loop of \<open>main\<close>
  (\<open>for i in range(10): results = await supervisor.run_with_supervision(...)\<close>): one call per
  input, stopping at the first call that raises.
\<close>

fun dispatch_cycles ::
  "('w \<Rightarrow> real) \<Rightarrow> ('d, 'r, 'w) PluginSupervisor \<Rightarrow> 'd list \<Rightarrow> 'w
     \<Rightarrow> exn + ((exn + 'r PluginResult) list list \<times> ('d, 'r, 'w) PluginSupervisor \<times> 'w)" where
  "dispatch_cycles now s [] w = Inr ([], s, w)"
| "dispatch_cycles now s (d # ds) w =
     (case run_with_supervision now s d w of
        Inl e \<Rightarrow> Inl e
      | Inr (results, s1, w1) \<Rightarrow>
          (case dispatch_cycles now s1 ds w1 of
             Inl e \<Rightarrow> Inl e
           | Inr (rss, s2, w2) \<Rightarrow> Inr (results # rss, s2, w2)))"

definition always_raises :: "('d, 'r, 'w) plugin \<Rightarrow> bool" where
  "always_raises p = (\<forall>d w. isl (fst (process p d w)))"

definition never_raises :: "('d, 'r, 'w) plugin \<Rightarrow> bool" where
  "never_raises p = (\<forall>d w. \<not> isl (fst (process p d w)))"


text \<open>
  What the result \<open>r\<close> of one cycle says about plugin \<open>p\<close>: it carries the plugin's name,
  it is a failure when the plugin raises on every call, a success when it never raises.
\<close>

definition result_of :: "('d, 'r, 'w) plugin \<Rightarrow> 'r PluginResult \<Rightarrow> bool" where
  "result_of p r =
     (plugin_name r = name p
      \<and> (always_raises p \<longrightarrow> \<not> success r)
      \<and> (never_raises p \<longrightarrow> success r))"

section \<open>numpy and Python arithmetic\<close>

text \<open>
  Arrays are lists; \<open>float\<close> and \<open>complex\<close> are the real and complex numbers, so rounding, NaN
  and infinities are outside the model. Python's \<open>/\<close> on floats raises on a zero divisor;
  numpy's elementwise \<open>/\<close> does not raise.
\<close>

definition py_int :: "real \<Rightarrow> int" where
  "py_int x = (if 0 \<le> x then \<lfloor>x\<rfloor> else \<lceil>x\<rceil>)"

definition py_truediv :: "real \<Rightarrow> real \<Rightarrow> exn + real" where
  "py_truediv a b = (if b = 0 then Inl ZeroDivisionError else Inr (a / b))"

text \<open>\<open>x or d\<close> for an optional number: \<open>None\<close> and \<open>0\<close> are falsy.\<close>

definition py_or :: "real option \<Rightarrow> real \<Rightarrow> real" where
  "py_or x d = (case x of None \<Rightarrow> d | Some v \<Rightarrow> if v = 0 then d else v)"

definition np_mean :: "real list \<Rightarrow> real" where
  "np_mean xs = sum_list xs / real (length xs)"

definition np_cmean :: "complex list \<Rightarrow> complex" where
  "np_cmean xs = sum_list xs / of_nat (length xs)"

definition np_clip :: "real \<Rightarrow> real \<Rightarrow> real \<Rightarrow> real" where
  "np_clip lo hi x = min (max x lo) hi"

definition np_zeros :: "nat \<Rightarrow> real list" where
  "np_zeros n = replicate n 0"

text \<open>\<open>np.diff(x, prepend=x[0])\<close>; \<open>x[0]\<close> raises \<open>IndexError\<close> on an empty array.\<close>

fun np_diff :: "real list \<Rightarrow> real list" where
  "np_diff (a # b # xs) = (b - a) # np_diff (b # xs)"
| "np_diff xs = []"

definition np_diff_prepend0 :: "real list \<Rightarrow> exn + real list" where
  "np_diff_prepend0 xs = (case xs of [] \<Rightarrow> Inl IndexError | x # _ \<Rightarrow> Inr (np_diff (x # xs)))"

text \<open>\<open>str.lower\<close> on ASCII text.\<close>

definition lower_char :: "char \<Rightarrow> char" where
  "lower_char c =
     (case map_of (zip ''ABCDEFGHIJKLMNOPQRSTUVWXYZ'' ''abcdefghijklmnopqrstuvwxyz'') c of
        Some l \<Rightarrow> l
      | None \<Rightarrow> c)"

definition lower :: "string \<Rightarrow> string" where
  "lower s = map lower_char s"

section \<open>Audio demodulators (dsp/demodulators.py)\<close>

text \<open>
  The \<open>scipy.signal\<close> functions that the demodulators call are parameters of the model: a
  filter design or a filter run returns its array or raises. \<open>butter_sos\<close> is
  \<open>butter(N, Wn, btype, output='sos')\<close>, \<open>butter_ba\<close> is \<open>butter(N, Wn, btype)\<close>; \<open>Wn\<close> is
  the list of normalised band edges.
\<close>

record scipy_signal =
  butter_sos :: "nat \<Rightarrow> real list \<Rightarrow> string \<Rightarrow> exn + real list list"
  butter_ba :: "nat \<Rightarrow> real list \<Rightarrow> string \<Rightarrow> exn + (real list \<times> real list)"
  sosfilt :: "real list list \<Rightarrow> real list \<Rightarrow> exn + real list"
  filtfilt :: "real list \<Rightarrow> real list \<Rightarrow> real list \<Rightarrow> exn + real list"
  resample :: "real list \<Rightarrow> int \<Rightarrow> exn + real list"

text \<open>
  The cache key \<open>f"{filter_type}_{sample_rate}_{bandwidth}_{low_cutoff}_{high_cutoff}"\<close> is
  kept as the tuple of the five formatted values.
\<close>

type_synonym filter_key = "string \<times> real \<times> real \<times> real option \<times> real option"

record AudioDemodulators =
  audio_sample_rate :: real
  fm_previous_phase :: real
  cw_oscillator_phase :: real
  audio_filter_cache :: "filter_key \<rightharpoonup> real list list"

definition AudioDemodulators_init :: "real \<Rightarrow> AudioDemodulators" where
  "AudioDemodulators_init rate =
     \<lparr>audio_sample_rate = rate, fm_previous_phase = 0, cw_oscillator_phase = 0,
      audio_filter_cache = Map.empty\<rparr>"

text \<open>
  The filter that \<open>_apply_audio_filter\<close> designs for a key that is not cached: the arguments
  of its \<open>scipy_signal.butter\<close> call, \<open>None\<close> for an unknown filter type (the audio is then
  returned as it is), or the \<open>ZeroDivisionError\<close> of a zero Nyquist rate.
\<close>

datatype butter_call = Butter nat "real list" string

definition filter_design ::
  "string \<Rightarrow> real \<Rightarrow> real \<Rightarrow> real option \<Rightarrow> real option \<Rightarrow> exn + butter_call option" where
  "filter_design filter_type sample_rate bandwidth low_cutoff high_cutoff =
     (let nyquist = sample_rate / 2 in
      if filter_type = ''lowpass'' then
        (let cutoff = min bandwidth (nyquist * 0.95) in
         case py_truediv cutoff nyquist of
           Inl e \<Rightarrow> Inl e
         | Inr wn \<Rightarrow> Inr (Some (Butter 6 [wn] ''lowpass'')))
      else if filter_type = ''bandpass'' then
        (case py_truediv (max (py_or low_cutoff 300) 1) nyquist of
           Inl e \<Rightarrow> Inl e
         | Inr low \<Rightarrow>
             (case py_truediv (min (py_or high_cutoff bandwidth) (nyquist * 0.95)) nyquist of
                Inl e \<Rightarrow> Inl e
              | Inr high \<Rightarrow>
                  if high > low then Inr (Some (Butter 4 [low, high] ''bandpass''))
                  else Inr (Some (Butter 6 [high] ''lowpass''))))
      else Inr None)"

text \<open>
  \<open>_apply_audio_filter\<close>. Every exception inside is caught and the unfiltered audio is
  returned; a design stored in the cache before the exception stays there.
\<close>

definition apply_audio_filter ::
  "scipy_signal \<Rightarrow> AudioDemodulators \<Rightarrow> real list \<Rightarrow> real \<Rightarrow> real \<Rightarrow> string
     \<Rightarrow> real option \<Rightarrow> real option \<Rightarrow> real list \<times> AudioDemodulators" where
  "apply_audio_filter sp st audio sample_rate bandwidth filter_type low_cutoff high_cutoff =
     (let filter_key = (filter_type, sample_rate, bandwidth, low_cutoff, high_cutoff) in
      case audio_filter_cache st filter_key of
        Some sos \<Rightarrow>
          (case sosfilt sp sos audio of
             Inl e \<Rightarrow> (audio, st)
           | Inr filtered \<Rightarrow> (filtered, st))
      | None \<Rightarrow>
          (case filter_design filter_type sample_rate bandwidth low_cutoff high_cutoff of
             Inl e \<Rightarrow> (audio, st)
           | Inr None \<Rightarrow> (audio, st)
           | Inr (Some (Butter n wn btype)) \<Rightarrow>
               (case butter_sos sp n wn btype of
                  Inl e \<Rightarrow> (audio, st)
                | Inr sos \<Rightarrow>
                    (let st1 = st\<lparr>audio_filter_cache := (audio_filter_cache st)(filter_key \<mapsto> sos)\<rparr>
                     in case sosfilt sp sos audio of
                          Inl e \<Rightarrow> (audio, st1)
                        | Inr filtered \<Rightarrow> (filtered, st1)))))"

text \<open>\<open>_apply_deemphasis\<close>; every exception inside returns the audio unchanged.\<close>

definition apply_deemphasis :: "scipy_signal \<Rightarrow> real list \<Rightarrow> real \<Rightarrow> real \<Rightarrow> real list" where
  "apply_deemphasis sp audio sample_rate time_constant =
     (case py_truediv 1 (2 * pi * time_constant) of
        Inl e \<Rightarrow> audio
      | Inr cutoff_freq \<Rightarrow>
          (let nyquist = sample_rate / 2 in
           case py_truediv cutoff_freq nyquist of
             Inl e \<Rightarrow> audio
           | Inr cutoff_norm \<Rightarrow>
               if cutoff_norm \<ge> 1 then audio
               else (case butter_ba sp 1 [cutoff_norm] ''lowpass'' of
                       Inl e \<Rightarrow> audio
                     | Inr (b, a) \<Rightarrow>
                         (case filtfilt sp b a audio of
                            Inl e \<Rightarrow> audio
                          | Inr deemphasized \<Rightarrow> deemphasized))))"

text \<open>\<open>_resample_audio\<close>; every exception inside returns the audio unchanged.\<close>

definition resample_audio :: "scipy_signal \<Rightarrow> real list \<Rightarrow> real \<Rightarrow> real \<Rightarrow> real list" where
  "resample_audio sp audio input_rate output_rate =
     (if input_rate = output_rate then audio
      else (case py_truediv output_rate input_rate of
              Inl e \<Rightarrow> audio
            | Inr resample_ratio \<Rightarrow>
                (let output_length = py_int (real (length audio) * resample_ratio) in
                 case resample sp audio output_length of
                   Inl e \<Rightarrow> audio
                 | Inr resampled \<Rightarrow> resampled)))"

text \<open>
  The \<open>try\<close> block of \<open>_apply_agc\<close> for a non-empty array. The boolean-mask assignment
  \<open>gain[nonzero_mask] = target_level / envelope[nonzero_mask]\<close> raises \<open>IndexError\<close> when the
  mask and \<open>gain\<close> differ in length. \<open>attack_time\<close> and \<open>release_time\<close> are not used.
\<close>

definition agc_try :: "scipy_signal \<Rightarrow> real list \<Rightarrow> real \<Rightarrow> exn + real list" where
  "agc_try sp audio target_level =
     (let window_size = max 1 (py_int (real (length audio) * 0.01));
          abs_audio = map abs audio
      in case (if int (length abs_audio) > window_size
               then filtfilt sp (replicate (nat window_size) (1 / real_of_int window_size)) [1]
                      abs_audio
               else Inr (map (\<lambda>_. np_mean abs_audio * 1) abs_audio)) of
           Inl e \<Rightarrow> Inl e
         | Inr envelope \<Rightarrow>
             (let nonzero_mask = map (\<lambda>v. v > 1 / 10 ^ 10) envelope in
              if (\<exists>m \<in> set nonzero_mask. m) then
                (if length nonzero_mask \<noteq> length audio then Inl IndexError
                 else
                   (let gain = map (\<lambda>v. if v > 1 / 10 ^ 10 then target_level / v else 1) envelope;
                        gain = map (np_clip 0.1 10.0) gain;
                        audio1 = map2 (*) audio gain
                    in Inr (map (np_clip (- 1.0) 1.0) audio1)))
              else Inr (map (np_clip (- 1.0) 1.0) audio)))"

text \<open>\<open>_apply_agc\<close>, with the normalising fallback of its \<open>except\<close> handler.\<close>

definition apply_agc :: "scipy_signal \<Rightarrow> real list \<Rightarrow> real \<Rightarrow> real \<Rightarrow> real \<Rightarrow> real list" where
  "apply_agc sp audio target_level attack_time release_time =
     (if length audio = 0 then audio
      else (case agc_try sp audio target_level of
              Inr audio1 \<Rightarrow> audio1
            | Inl e \<Rightarrow>
                (let max_val = Max (set (map abs audio)) in
                 if max_val > 0 then map (\<lambda>x. x / max_val * target_level) audio
                 else audio)))"

text \<open>
  \<open>am_demodulate\<close>. No statement of its \<open>try\<close> block raises on a complex array (the helpers
  catch their own exceptions), so the handler returning \<open>np.zeros(len(iq_samples))\<close> is not
  reached.
\<close>

definition am_demodulate ::
  "scipy_signal \<Rightarrow> AudioDemodulators \<Rightarrow> complex list \<Rightarrow> real \<Rightarrow> real option
     \<Rightarrow> real list \<times> AudioDemodulators" where
  "am_demodulate sp st iq_samples sample_rate bandwidth =
     (let amplitude = map cmod iq_samples;
          mean = np_mean amplitude;
          audio = map (\<lambda>a. a - mean) amplitude;
          (audio, st) =
            (case bandwidth of
               None \<Rightarrow> (audio, st)
             | Some bw \<Rightarrow>
                 if bw < sample_rate / 2
                 then apply_audio_filter sp st audio sample_rate bw ''lowpass'' None None
                 else (audio, st));
          audio = (if sample_rate \<noteq> audio_sample_rate st
                   then resample_audio sp audio sample_rate (audio_sample_rate st)
                   else audio);
          audio = apply_agc sp audio 0.3 0.01 0.1
      in (audio, st))"

text \<open>The \<open>try\<close> block of \<open>fm_demodulate\<close>; \<open>I[0]\<close> raises on an empty chunk.\<close>

definition fm_try ::
  "scipy_signal \<Rightarrow> AudioDemodulators \<Rightarrow> complex list \<Rightarrow> real \<Rightarrow> real option \<Rightarrow> real
     \<Rightarrow> exn + (real list \<times> AudioDemodulators)" where
  "fm_try sp st iq_samples sample_rate bandwidth deviation =
     (let mean = np_cmean iq_samples;
          iq = map (\<lambda>z. z - mean) iq_samples;
          magnitude = map cmod iq;
          magnitude = map (\<lambda>v. if v < 1 / 10 ^ 10 then 1 / 10 ^ 10 else v) magnitude;
          limited_samples = map2 (\<lambda>z v. z / complex_of_real v) iq magnitude;
          I = map Re limited_samples;
          Q = map Im limited_samples
      in case np_diff_prepend0 I of
           Inl e \<Rightarrow> Inl e
         | Inr dI \<Rightarrow>
             (case np_diff_prepend0 Q of
                Inl e \<Rightarrow> Inl e
              | Inr dQ \<Rightarrow>
                  (let discriminator_out = map2 (-) (map2 (*) I dQ) (map2 (*) Q dI);
                       audio = map (\<lambda>x. x * sample_rate / (2 * pi)) discriminator_out;
                       audio = map (\<lambda>x. x / deviation) audio;
                       (audio, st) =
                         (case bandwidth of
                            None \<Rightarrow> (audio, st)
                          | Some bw \<Rightarrow>
                              apply_audio_filter sp st audio sample_rate
                                (min (bw * 2) (sample_rate * 0.4)) ''lowpass'' None None);
                       audio = (if deviation \<ge> 50000
                                then apply_deemphasis sp audio sample_rate (75 / 10 ^ 6)
                                else audio);
                       (audio, st) =
                         (case bandwidth of
                            None \<Rightarrow> (audio, st)
                          | Some bw \<Rightarrow>
                              apply_audio_filter sp st audio sample_rate bw ''lowpass'' None None);
                       audio = (if sample_rate \<noteq> audio_sample_rate st
                                then resample_audio sp audio sample_rate (audio_sample_rate st)
                                else audio);
                       audio = apply_agc sp audio 0.4 0.001 0.1
                   in Inr (audio, st))))"

definition fm_demodulate ::
  "scipy_signal \<Rightarrow> AudioDemodulators \<Rightarrow> complex list \<Rightarrow> real \<Rightarrow> real option \<Rightarrow> real
     \<Rightarrow> real list \<times> AudioDemodulators" where
  "fm_demodulate sp st iq_samples sample_rate bandwidth deviation =
     (case fm_try sp st iq_samples sample_rate bandwidth deviation of
        Inr r \<Rightarrow> r
      | Inl e \<Rightarrow> (np_zeros (length iq_samples), st))"

text \<open>The \<open>try\<close> block of \<open>ssb_demodulate\<close>; an unknown mode raises \<open>ValueError\<close>.\<close>

definition ssb_try ::
  "scipy_signal \<Rightarrow> AudioDemodulators \<Rightarrow> complex list \<Rightarrow> string \<Rightarrow> real \<Rightarrow> real option
     \<Rightarrow> exn + (real list \<times> AudioDemodulators)" where
  "ssb_try sp st iq_samples mode sample_rate bandwidth =
     (let mode = lower mode in
      if mode \<notin> set [''usb'', ''lsb''] then Inl ValueError
      else
        (let audio = (if mode = ''usb'' then map Re iq_samples
                      else map Re (map cnj iq_samples));
             bandwidth = (case bandwidth of None \<Rightarrow> 2700 | Some bw \<Rightarrow> bw);
             (audio, st) =
               apply_audio_filter sp st audio sample_rate bandwidth ''bandpass''
                 (Some 300) (Some bandwidth);
             audio = (if sample_rate \<noteq> audio_sample_rate st
                      then resample_audio sp audio sample_rate (audio_sample_rate st)
                      else audio);
             audio = apply_agc sp audio 0.4 0.001 0.1
         in Inr (audio, st)))"

definition ssb_demodulate ::
  "scipy_signal \<Rightarrow> AudioDemodulators \<Rightarrow> complex list \<Rightarrow> string \<Rightarrow> real \<Rightarrow> real option
     \<Rightarrow> real list \<times> AudioDemodulators" where
  "ssb_demodulate sp st iq_samples mode sample_rate bandwidth =
     (case ssb_try sp st iq_samples mode sample_rate bandwidth of
        Inr r \<Rightarrow> r
      | Inl e \<Rightarrow> (np_zeros (length iq_samples), st))"

text \<open>
  \<open>cw_demodulate\<close>; \<open>t = np.arange(len(iq_samples)) / sample_rate\<close> is numpy division. As in
  \<open>am_demodulate\<close>, nothing in the \<open>try\<close> block raises.
\<close>

definition cw_demodulate ::
  "scipy_signal \<Rightarrow> AudioDemodulators \<Rightarrow> complex list \<Rightarrow> real \<Rightarrow> real \<Rightarrow> real
     \<Rightarrow> real list \<times> AudioDemodulators" where
  "cw_demodulate sp st iq_samples sample_rate tone_frequency bandwidth =
     (let t = map (\<lambda>k. real k / sample_rate) [0..<length iq_samples];
          bfo = map (\<lambda>tk. Complex (cos (2 * pi * tone_frequency * tk))
                                  (sin (2 * pi * tone_frequency * tk))) t;
          mixed = map2 (\<lambda>z b. z * cnj b) iq_samples bfo;
          audio = map Re mixed;
          (audio, st) =
            apply_audio_filter sp st audio sample_rate bandwidth ''bandpass''
              (Some (tone_frequency - bandwidth / 2)) (Some (tone_frequency + bandwidth / 2));
          audio = (if sample_rate \<noteq> audio_sample_rate st
                   then resample_audio sp audio sample_rate (audio_sample_rate st)
                   else audio);
          audio = apply_agc sp audio 0.5 0.0001 0.1
      in (audio, st))"

text \<open>
  A \<open>scipy.signal\<close> in which every call raises \<open>ValueError\<close>, for evaluating the
  demodulators on short arrays. On those, \<open>scipy\<close> itself raises: \<open>resample\<close> for a
  requested length below 1, \<open>filtfilt\<close> for an array no longer than its padding
  (\<open>3 * max(len(a), len(b))\<close>).
\<close>

definition scipy_raising :: scipy_signal where
  "scipy_raising =
     \<lparr>butter_sos = (\<lambda>n wn btype. Inl ValueError),
      butter_ba = (\<lambda>n wn btype. Inl ValueError),
      sosfilt = (\<lambda>sos x. Inl ValueError),
      filtfilt = (\<lambda>b a x. Inl ValueError),
      resample = (\<lambda>x num. Inl ValueError)\<rparr>"

text \<open>
  What is assumed of the library for silent input: a filter run that returns on an all-zero
  array returns zeros of the same length (the filters are linear), and a resampling that
  returns gives the requested number of zeros.
\<close>

definition zero_preserving :: "scipy_signal \<Rightarrow> bool" where
  "zero_preserving sp =
     ((\<forall>sos n ys. sosfilt sp sos (np_zeros n) = Inr ys \<longrightarrow> ys = np_zeros n)
      \<and> (\<forall>b a n ys. filtfilt sp b a (np_zeros n) = Inr ys \<longrightarrow> ys = np_zeros n)
      \<and> (\<forall>n m ys. resample sp (np_zeros n) m = Inr ys \<longrightarrow> ys = np_zeros (nat m)))"

text \<open>
  The expected resampled length of \<open>n\<close> input samples, \<open>int(n * output_rate / input_rate)\<close>,
  and whether the resampling step of a demodulator delivers on \<open>n\<close> zeros: the rates are
  equal (no resampling), or the \<open>resample\<close> call returns.
\<close>

definition resampled_length :: "AudioDemodulators \<Rightarrow> nat \<Rightarrow> real \<Rightarrow> nat" where
  "resampled_length st n sample_rate =
     nat (py_int (real n * (audio_sample_rate st / sample_rate)))"

definition resample_returns :: "scipy_signal \<Rightarrow> AudioDemodulators \<Rightarrow> nat \<Rightarrow> real \<Rightarrow> bool" where
  "resample_returns sp st n sample_rate =
     (sample_rate = audio_sample_rate st
      \<or> \<not> isl (resample sp (np_zeros n)
                 (py_int (real n * (audio_sample_rate st / sample_rate)))))"

text \<open>
  The filter cache is consistent when every cached design is what \<open>butter\<close> returns for the
  filter that \<open>_apply_audio_filter\<close> designs for that key. The empty cache of \<open>__init__\<close> is
  consistent and \<open>_apply_audio_filter\<close>, the only writer, keeps it so.
\<close>

definition cache_consistent :: "scipy_signal \<Rightarrow> AudioDemodulators \<Rightarrow> bool" where
  "cache_consistent sp st =
     (\<forall>ft sr bw lo hi sos.
        audio_filter_cache st (ft, sr, bw, lo, hi) = Some sos \<longrightarrow>
        (\<exists>n wn bt. filter_design ft sr bw lo hi = Inr (Some (Butter n wn bt))
                   \<and> butter_sos sp n wn bt = Inr sos))"

text \<open>
  The audio passed through a designed Butterworth filter; unchanged when the design or the
  filter run raises.
\<close>

definition butterworth :: "scipy_signal \<Rightarrow> butter_call \<Rightarrow> real list \<Rightarrow> real list" where
  "butterworth sp call audio =
     (case call of
        Butter n wn btype \<Rightarrow>
          (case butter_sos sp n wn btype of
             Inl e \<Rightarrow> audio
           | Inr sos \<Rightarrow>
               (case sosfilt sp sos audio of
                  Inl e \<Rightarrow> audio
                | Inr filtered \<Rightarrow> filtered)))"

text \<open>
  SSB demodulation in the words of the specification: the real part of the samples (\<open>usb\<close>) or
  of their conjugates (\<open>lsb\<close>), a bandpass from 300 Hz to the bandwidth (2700 Hz when none is
  given; band edges normalised by the Nyquist rate, Butterworth of order 4), resampling to the
  audio rate, AGC. Any other mode is rejected (\<open>None\<close>).
\<close>

definition ssb_after_filter ::
  "scipy_signal \<Rightarrow> AudioDemodulators \<Rightarrow> real \<Rightarrow> real list \<Rightarrow> real list" where
  "ssb_after_filter sp st sample_rate filtered =
     apply_agc sp
       (if sample_rate \<noteq> audio_sample_rate st
        then resample_audio sp filtered sample_rate (audio_sample_rate st)
        else filtered) 0.4 0.001 0.1"

definition ssb_spec ::
  "scipy_signal \<Rightarrow> AudioDemodulators \<Rightarrow> complex list \<Rightarrow> string \<Rightarrow> real \<Rightarrow> real option
     \<Rightarrow> real list option" where
  "ssb_spec sp st iq_samples mode sample_rate bandwidth =
     (let bw = (case bandwidth of None \<Rightarrow> 2700 | Some b \<Rightarrow> b);
          bandpass = butterworth sp
                       (Butter 4 [300 / (sample_rate / 2), bw / (sample_rate / 2)] ''bandpass'')
      in if mode = ''usb''
         then Some (ssb_after_filter sp st sample_rate (bandpass (map Re iq_samples)))
         else if mode = ''lsb''
         then Some (ssb_after_filter sp st sample_rate (bandpass (map (\<lambda>z. Re (cnj z)) iq_samples)))
         else None)"

section \<open>Spectrum processor (dsp/spectrum\_processor.py): numpy\<close>

text \<open>
  \<open>np.zeros(n)\<close> and \<open>np.ones(n)\<close> raise \<open>ValueError\<close> for a negative \<open>n\<close>.
\<close>

definition np_full :: "int \<Rightarrow> 'a \<Rightarrow> exn + 'a list" where
  "np_full n v = (if n < 0 then Inl ValueError else Inr (replicate (nat n) v))"

text \<open>
  The window functions of numpy. For \<open>M < 1\<close> they return an empty array and for \<open>M = 1\<close> the
  array \<open>[1.]\<close>; otherwise they are evaluated at \<open>n = 1-M, 3-M, ..., M-1\<close>
  (\<open>np.kaiser\<close>: at \<open>n = 0, ..., M-1\<close>).
\<close>

definition cosine_window :: "(real \<Rightarrow> real) \<Rightarrow> int \<Rightarrow> real list" where
  "cosine_window f M =
     (if M < 1 then []
      else if M = 1 then [1]
      else map (\<lambda>k. f (pi * real_of_int (1 - M + 2 * int k) / real_of_int (M - 1))) [0..<nat M])"

definition np_hanning :: "int \<Rightarrow> real list" where
  "np_hanning M = cosine_window (\<lambda>x. 0.5 + 0.5 * cos x) M"

definition np_hamming :: "int \<Rightarrow> real list" where
  "np_hamming M = cosine_window (\<lambda>x. 0.54 + 0.46 * cos x) M"

definition np_blackman :: "int \<Rightarrow> real list" where
  "np_blackman M = cosine_window (\<lambda>x. 0.42 + 0.5 * cos x + 0.08 * cos (2.0 * x)) M"

text \<open>The modified Bessel function of order 0, \<open>np.i0\<close>.\<close>

definition np_i0 :: "real \<Rightarrow> real" where
  "np_i0 x = (\<Sum>k. ((x / 2) ^ k / fact k) ^ 2)"

definition np_kaiser :: "int \<Rightarrow> real \<Rightarrow> real list" where
  "np_kaiser M beta =
     (if M < 1 then []
      else if M = 1 then [1]
      else (let alpha = real_of_int (M - 1) / 2.0
            in map (\<lambda>n. np_i0 (beta * sqrt (1 - ((real n - alpha) / alpha) ^ 2)) / np_i0 beta)
                 [0..<nat M]))"

text \<open>
  \<open>np.fft.fft\<close>: the discrete Fourier transform; an empty array raises \<open>ValueError\<close>.
\<close>

definition dft :: "complex list \<Rightarrow> complex list" where
  "dft xs =
     map (\<lambda>k. \<Sum>n<length xs. xs ! n * cis (- 2 * pi * real k * real n / real (length xs)))
       [0..<length xs]"

definition np_fft :: "complex list \<Rightarrow> exn + complex list" where
  "np_fft xs = (if xs = [] then Inl ValueError else Inr (dft xs))"

text \<open>\<open>np.fft.fftshift\<close>: roll the array right by \<open>n // 2\<close>.\<close>

definition fftshift :: "'a list \<Rightarrow> 'a list" where
  "fftshift xs =
     (let n = length xs; shift = n div 2
      in drop (n - shift) xs @ take (n - shift) xs)"

text \<open>
  \<open>np.fft.fftfreq(n, d)\<close>: \<open>val = 1.0 / (n * d)\<close> (a zero product raises),
  \<open>results = empty(n, int)\<close> (a negative \<open>n\<close> raises), then the integers
  \<open>0, ..., (n-1)//2, -(n//2), ..., -1\<close> times \<open>val\<close>.
\<close>

definition np_fftfreq :: "int \<Rightarrow> real \<Rightarrow> exn + real list" where
  "np_fftfreq n d =
     (case py_truediv 1.0 (real_of_int n * d) of
        Inl e \<Rightarrow> Inl e
      | Inr val \<Rightarrow>
          if n < 0 then Inl ValueError
          else Inr (map (\<lambda>k. real_of_int k * val) ([0..(n - 1) div 2] @ [- (n div 2)..- 1])))"

text \<open>
  Elementwise arithmetic on two one-dimensional arrays with numpy's broadcasting: equal
  lengths, or one of the arrays has a single element; otherwise \<open>ValueError\<close>.
\<close>

definition np_broadcast :: "('a \<Rightarrow> 'b \<Rightarrow> 'c) \<Rightarrow> 'a list \<Rightarrow> 'b list \<Rightarrow> exn + 'c list" where
  "np_broadcast f xs ys =
     (if length xs = length ys then Inr (map2 f xs ys)
      else if length xs = 1 then Inr (map (f (hd xs)) ys)
      else if length ys = 1 then Inr (map (\<lambda>x. f x (hd ys)) xs)
      else Inl ValueError)"

text \<open>
  An assignment into an existing array, \<open>a[:] = b\<close> or \<open>a += b\<close>: \<open>b\<close> must broadcast to
  the shape of \<open>a\<close>.
\<close>

definition np_broadcast_to :: "nat \<Rightarrow> 'a list \<Rightarrow> exn + 'a list" where
  "np_broadcast_to n ys =
     (if length ys = n then Inr ys
      else if length ys = 1 then Inr (replicate n (hd ys))
      else Inl ValueError)"

text \<open>Python's \<open>//\<close> on integers and the slice \<open>xs[start:end]\<close>.\<close>

definition py_floordiv :: "int \<Rightarrow> int \<Rightarrow> exn + int" where
  "py_floordiv a b = (if b = 0 then Inl ZeroDivisionError else Inr (a div b))"

definition py_index :: "nat \<Rightarrow> int \<Rightarrow> nat" where
  "py_index len i = (if i < 0 then nat (max (i + int len) 0) else min (nat i) len)"

definition py_slice :: "'a list \<Rightarrow> int \<Rightarrow> int \<Rightarrow> 'a list" where
  "py_slice xs start stop =
     (let a = py_index (length xs) start; b = py_index (length xs) stop
      in take (b - a) (drop a xs))"

section \<open>Spectrum processor (dsp/spectrum\_processor.py)\<close>

text \<open>
  The attributes of \<open>SpectrumProcessor\<close>. \<open>fftw_size\<close> is the length of the aligned arrays
  \<open>fftw_input\<close> and \<open>fftw_output\<close> of the FFTW plan, meaningful when \<open>use_fftw\<close> holds.
\<close>

record SpectrumProcessor =
  fft_size :: int
  sample_rate :: real
  overlap :: real
  window_type :: string
  center_frequency :: real
  window :: "real list"
  frequencies :: "real list"
  overlap_samples :: int
  overlap_buffer :: "complex list"
  use_fftw :: bool
  fftw_size :: int
  enable_smoothing :: bool
  smoothing_factor :: real
  previous_spectrum :: "real list option"

text \<open>\<open>_create_window\<close>; an unknown window type gives \<open>np.ones(fft_size)\<close>.\<close>

definition create_window :: "string \<Rightarrow> int \<Rightarrow> exn + real list" where
  "create_window wt n =
     (if wt = ''hann'' then Inr (np_hanning n)
      else if wt = ''hamming'' then Inr (np_hamming n)
      else if wt = ''blackman'' then Inr (np_blackman n)
      else if wt = ''kaiser'' then Inr (np_kaiser n 8.6)
      else np_full n 1)"

text \<open>
  The array that \<open>_update_frequency_array\<close> computes:
  \<open>np.fft.fftshift(np.fft.fftfreq(fft_size, 1/sample_rate)) + center_frequency\<close>.
\<close>

definition frequency_array :: "int \<Rightarrow> real \<Rightarrow> real \<Rightarrow> exn + real list" where
  "frequency_array n rate center =
     (case py_truediv 1 rate of
        Inl e \<Rightarrow> Inl e
      | Inr d \<Rightarrow>
          (case np_fftfreq n d of
             Inl e \<Rightarrow> Inl e
           | Inr freq_bins \<Rightarrow> Inr (map (\<lambda>f. f + center) (fftshift freq_bins))))"

definition update_frequency_array :: "SpectrumProcessor \<Rightarrow> exn + SpectrumProcessor" where
  "update_frequency_array s =
     (case frequency_array (fft_size s) (sample_rate s) (center_frequency s) of
        Inl e \<Rightarrow> Inl e
      | Inr fs \<Rightarrow> Inr (s\<lparr>frequencies := fs\<rparr>))"

text \<open>
  Creating the FFTW arrays and plan for \<open>n\<close> points
  (\<open>pyfftw.empty_aligned(n)\<close> twice, \<open>pyfftw.FFTW(input, output)\<close>). A size below 1 is taken to
  raise \<open>ValueError\<close>; nothing proved below depends on that case.
\<close>

definition fftw_plan :: "int \<Rightarrow> exn + int" where
  "fftw_plan n = (if n < 1 then Inl ValueError else Inr n)"

text \<open>
  \<open>__init__\<close>. \<open>pyfftw_available\<close> says whether \<open>import pyfftw\<close> succeeds. An exception
  leaves no object.
\<close>

definition SpectrumProcessor_init ::
  "int \<Rightarrow> real \<Rightarrow> real \<Rightarrow> string \<Rightarrow> bool \<Rightarrow> exn + SpectrumProcessor" where
  "SpectrumProcessor_init n rate ov wt pyfftw_available =
     (case create_window wt n of
        Inl e \<Rightarrow> Inl e
      | Inr w \<Rightarrow>
          (case frequency_array n rate 100000000 of
             Inl e \<Rightarrow> Inl e
           | Inr fs \<Rightarrow>
               (case np_full (py_int (real_of_int n * ov)) (0 :: complex) of
                  Inl e \<Rightarrow> Inl e
                | Inr buf \<Rightarrow>
                    (case (if pyfftw_available then fftw_plan n else Inr n) of
                       Inl e \<Rightarrow> Inl e
                     | Inr m \<Rightarrow>
                         Inr \<lparr>fft_size = n, sample_rate = rate, overlap = ov, window_type = wt,
                              center_frequency = 100000000, window = w, frequencies = fs,
                              overlap_samples = py_int (real_of_int n * ov),
                              overlap_buffer = buf, use_fftw = pyfftw_available, fftw_size = m,
                              enable_smoothing = True, smoothing_factor = 0.3,
                              previous_spectrum = None\<rparr>))))"

text \<open>
  \<open>update_config\<close>. The attributes are assigned one after the other, so an exception leaves
  the assignments made before it in place: the result is the exception, if any, and the
  object as it is afterwards. \<open>previous_spectrum\<close> is not assigned.
\<close>

definition update_fft_size :: "SpectrumProcessor \<Rightarrow> int \<Rightarrow> exn option \<times> SpectrumProcessor" where
  "update_fft_size s n =
     (let s1 = s\<lparr>fft_size := n\<rparr> in
      case create_window (window_type s1) n of
        Inl e \<Rightarrow> (Some e, s1)
      | Inr w \<Rightarrow>
          (let s2 = s1\<lparr>window := w, overlap_samples := py_int (real_of_int n * overlap s1)\<rparr> in
           case np_full (overlap_samples s2) (0 :: complex) of
             Inl e \<Rightarrow> (Some e, s2)
           | Inr buf \<Rightarrow>
               (let s3 = s2\<lparr>overlap_buffer := buf\<rparr> in
                if use_fftw s3 then
                  (case fftw_plan n of
                     Inl e \<Rightarrow> (Some e, s3)
                   | Inr m \<Rightarrow> (None, s3\<lparr>fftw_size := m\<rparr>))
                else (None, s3))))"

definition update_config ::
  "SpectrumProcessor \<Rightarrow> real option \<Rightarrow> real option \<Rightarrow> int option
     \<Rightarrow> exn option \<times> SpectrumProcessor" where
  "update_config s new_rate new_center new_size =
     (let (updated, s1) =
            (case new_rate of
               Some r \<Rightarrow> if r \<noteq> sample_rate s then (True, s\<lparr>sample_rate := r\<rparr>) else (False, s)
             | None \<Rightarrow> (False, s));
          (updated, s2) =
            (case new_center of
               Some c \<Rightarrow>
                 if c \<noteq> center_frequency s1 then (True, s1\<lparr>center_frequency := c\<rparr>)
                 else (updated, s1)
             | None \<Rightarrow> (updated, s1))
      in case (case new_size of
                 Some n \<Rightarrow>
                   if n \<noteq> fft_size s2
                   then (case update_fft_size s2 n of
                           (Some e, s3) \<Rightarrow> Inl (e, s3)
                         | (None, s3) \<Rightarrow> Inr (True, s3))
                   else Inr (updated, s2)
               | None \<Rightarrow> Inr (updated, s2)) of
           Inl (e, s3) \<Rightarrow> (Some e, s3)
         | Inr (updated, s3) \<Rightarrow>
             if updated then
               (case update_frequency_array s3 of
                  Inl e \<Rightarrow> (Some e, s3)
                | Inr s4 \<Rightarrow> (None, s4))
             else (None, s3))"

text \<open>
  The FFT of a windowed frame, as both \<open>process_samples\<close> and \<open>_process_long_sequence\<close>
  compute it: with FFTW the frame is copied into \<open>fftw_input\<close> and the plan is run, otherwise
  \<open>np.fft.fft\<close> is called.
\<close>

definition compute_fft :: "SpectrumProcessor \<Rightarrow> complex list \<Rightarrow> exn + complex list" where
  "compute_fft s windowed =
     (if use_fftw s then
        (case np_broadcast_to (nat (fftw_size s)) windowed of
           Inl e \<Rightarrow> Inl e
         | Inr fftw_input \<Rightarrow> Inr (dft fftw_input))
      else np_fft windowed)"

definition power_to_db :: "real \<Rightarrow> real" where
  "power_to_db p = 10 * log 10 (max p (1 / 10 ^ 10))"

text \<open>
  The end of both \<open>process_samples\<close> and \<open>_process_long_sequence\<close>: smooth against the previous
  spectrum if there is one and smoothing is enabled, store the result as the previous
  spectrum, return it with a copy of the frequency array.
\<close>

definition smooth_and_store ::
  "SpectrumProcessor \<Rightarrow> real list \<Rightarrow> exn + ((real list \<times> real list) \<times> SpectrumProcessor)" where
  "smooth_and_store s spectrum_db =
     (case (case previous_spectrum s of
              Some prev \<Rightarrow>
                if enable_smoothing s
                then np_broadcast (+) (map (\<lambda>x. smoothing_factor s * x) spectrum_db)
                       (map (\<lambda>x. (1 - smoothing_factor s) * x) prev)
                else Inr spectrum_db
            | None \<Rightarrow> Inr spectrum_db) of
        Inl e \<Rightarrow> Inl e
      | Inr spectrum_db \<Rightarrow>
          Inr ((frequencies s, spectrum_db), s\<lparr>previous_spectrum := Some spectrum_db\<rparr>))"

text \<open>
  The single-frame part of \<open>process_samples\<close> (window, FFT, shift, power, dB, smoothing) for
  a chunk that has been padded or has \<open>fft_size\<close> samples.
\<close>

definition process_frame ::
  "SpectrumProcessor \<Rightarrow> complex list
     \<Rightarrow> exn + ((real list \<times> real list) \<times> SpectrumProcessor)" where
  "process_frame s samples =
     (case np_broadcast (\<lambda>z w. z * complex_of_real w) samples (window s) of
        Inl e \<Rightarrow> Inl e
      | Inr windowed \<Rightarrow>
          (case compute_fft s windowed of
             Inl e \<Rightarrow> Inl e
           | Inr fft_result \<Rightarrow>
               (let fft_shifted = fftshift fft_result;
                    power_spectrum = map (\<lambda>z. (cmod z) ^ 2) fft_shifted;
                    spectrum_db = map power_to_db power_spectrum
                in smooth_and_store s spectrum_db)))"

text \<open>
  The frame loop of \<open>_process_long_sequence\<close> over the indices \<open>range(num_frames)\<close>, with the
  accumulator and the frame count.
\<close>

fun accumulate_frames ::
  "SpectrumProcessor \<Rightarrow> complex list \<Rightarrow> int \<Rightarrow> nat list \<Rightarrow> real list \<times> nat
     \<Rightarrow> exn + (real list \<times> nat)" where
  "accumulate_frames s samples hop_size [] (power_accumulator, frame_count) =
     Inr (power_accumulator, frame_count)"
| "accumulate_frames s samples hop_size (i # rest) (power_accumulator, frame_count) =
     (let start_idx = int i * hop_size;
          end_idx = start_idx + fft_size s
      in if end_idx > int (length samples) then Inr (power_accumulator, frame_count)
         else
           (let frame = py_slice samples start_idx end_idx in
            case np_broadcast (\<lambda>z w. z * complex_of_real w) frame (window s) of
              Inl e \<Rightarrow> Inl e
            | Inr windowed \<Rightarrow>
                (case compute_fft s windowed of
                   Inl e \<Rightarrow> Inl e
                 | Inr fft_result \<Rightarrow>
                     (case np_broadcast_to (length power_accumulator)
                             (map (\<lambda>z. (cmod z) ^ 2) fft_result) of
                        Inl e \<Rightarrow> Inl e
                      | Inr frame_power \<Rightarrow>
                          accumulate_frames s samples hop_size rest
                            (map2 (+) power_accumulator frame_power, frame_count + 1)))))"

text \<open>
  \<open>_process_long_sequence\<close>. In the fallback for \<open>num_frames <= 0\<close> the chunk is assigned into
  \<open>padded[:len(samples)]\<close>, a slice of \<open>min(len(samples), fft_size)\<close> elements, and
  \<open>process_samples(padded)\<close> is called on an array of exactly \<open>fft_size\<close> elements: that call
  runs the single-frame part inside its own \<open>try\<close>.
\<close>

definition process_long_sequence ::
  "SpectrumProcessor \<Rightarrow> complex list
     \<Rightarrow> exn + ((real list \<times> real list) \<times> SpectrumProcessor)" where
  "process_long_sequence s samples =
     (let hop_size = fft_size s - overlap_samples s;
          total_length = int (length samples)
      in case py_floordiv (total_length - overlap_samples s) hop_size of
           Inl e \<Rightarrow> Inl e
         | Inr num_frames \<Rightarrow>
             if num_frames \<le> 0 then
               (case np_full (fft_size s) (0 :: complex) of
                  Inl e \<Rightarrow> Inl e
                | Inr padded \<Rightarrow>
                    (case np_broadcast_to (min (length samples) (length padded)) samples of
                       Inl e \<Rightarrow> Inl e
                     | Inr head \<Rightarrow>
                         (let padded = head @ drop (length head) padded in
                          case process_frame s padded of
                            Inl e \<Rightarrow> Inr (([], []), s)
                          | Inr r \<Rightarrow> Inr r)))
             else
               (case np_full (fft_size s) (0 :: real) of
                  Inl e \<Rightarrow> Inl e
                | Inr zeros \<Rightarrow>
                    (case accumulate_frames s samples hop_size [0..<nat num_frames] (zeros, 0) of
                       Inl e \<Rightarrow> Inl e
                     | Inr (power_accumulator, frame_count) \<Rightarrow>
                         if frame_count > 0 then
                           (let power_spectrum =
                                  map (\<lambda>p. p / real frame_count) power_accumulator;
                                power_shifted = fftshift power_spectrum;
                                spectrum_db = map power_to_db power_shifted
                            in smooth_and_store s spectrum_db)
                         else Inr (([], []), s))))"

text \<open>
  \<open>process_samples\<close>: a short chunk is zero-padded on the right, a long one goes to
  \<open>_process_long_sequence\<close>; any exception gives two empty arrays and leaves the object as
  it was.
\<close>

definition process_samples ::
  "SpectrumProcessor \<Rightarrow> complex list \<Rightarrow> (real list \<times> real list) \<times> SpectrumProcessor" where
  "process_samples s samples =
     (case (if int (length samples) < fft_size s then
              process_frame s (samples @ replicate (nat (fft_size s) - length samples) 0)
            else if int (length samples) > fft_size s then
              process_long_sequence s samples
            else process_frame s samples) of
        Inl e \<Rightarrow> (([], []), s)
      | Inr r \<Rightarrow> r)"

text \<open>
  A processor is configured when its derived attributes agree with its parameters, as
  \<open>__init__\<close> and \<open>update_config\<close> leave them: a positive FFT size and sample rate, an
  overlap factor in the documented range \<open>0.0\<close> to \<open>0.9\<close>, a window of \<open>fft_size\<close> entries,
  the frequency array of the current parameters, and FFTW arrays of \<open>fft_size\<close> entries.
\<close>

definition configured :: "SpectrumProcessor \<Rightarrow> bool" where
  "configured s =
     (1 \<le> fft_size s \<and> 0 < sample_rate s
      \<and> 0 \<le> overlap s \<and> overlap s \<le> 0.9
      \<and> overlap_samples s = py_int (real_of_int (fft_size s) * overlap s)
      \<and> length (window s) = nat (fft_size s)
      \<and> frequency_array (fft_size s) (sample_rate s) (center_frequency s) = Inr (frequencies s)
      \<and> (if use_fftw s then fftw_size s = fft_size s else True)
      \<and> 0 \<le> smoothing_factor s \<and> smoothing_factor s \<le> 1)"

text \<open>
  The previous spectrum fits the configuration when there is none, or it has \<open>fft_size\<close>
  entries, none below the floor of \<open>10 * log10(1e-10) = -100\<close> dB.
\<close>

definition previous_fits :: "SpectrumProcessor \<Rightarrow> bool" where
  "previous_fits s =
     (case previous_spectrum s of
        None \<Rightarrow> True
      | Some prev \<Rightarrow> length prev = nat (fft_size s) \<and> list_all (\<lambda>p. - 100 \<le> p) prev)"

text \<open>
  The spectrum estimate in the words of the specification. The frames of a chunk are its
  stretches of \<open>N\<close> samples that start at the multiples of the hop size and fit into the
  chunk; with a hop of \<open>N div 2\<close> they overlap by 50%. The periodogram of a frame is the
  squared magnitude of the FFT of the windowed frame. The powers are averaged bin by bin in
  the linear domain, shifted, and converted to dB once.
\<close>

definition overlapping_frames :: "nat \<Rightarrow> nat \<Rightarrow> complex list \<Rightarrow> complex list list" where
  "overlapping_frames N hop samples =
     map (\<lambda>k. take N (drop (k * hop) samples))
       (filter (\<lambda>k. k * hop + N \<le> length samples) [0..<length samples])"

definition periodogram :: "real list \<Rightarrow> complex list \<Rightarrow> real list" where
  "periodogram w frame =
     map (\<lambda>z. (cmod z) ^ 2) (dft (map2 (\<lambda>z a. z * complex_of_real a) frame w))"

definition mean_power :: "nat \<Rightarrow> real list list \<Rightarrow> real list" where
  "mean_power N ps = map (\<lambda>j. (\<Sum>p\<leftarrow>ps. p ! j) / real (length ps)) [0..<N]"

definition averaged_spectrum_db :: "real list \<Rightarrow> nat \<Rightarrow> nat \<Rightarrow> complex list \<Rightarrow> real list" where
  "averaged_spectrum_db w N hop samples =
     map power_to_db (fftshift (mean_power N (map (periodogram w) (overlapping_frames N hop samples))))"

text \<open>
  What \<open>process_samples\<close> returns for a spectrum in dB: the smoothed and stored result, or
  two empty arrays when smoothing raises.
\<close>

definition deliver ::
  "SpectrumProcessor \<Rightarrow> real list \<Rightarrow> (real list \<times> real list) \<times> SpectrumProcessor" where
  "deliver s spectrum_db =
     (case smooth_and_store s spectrum_db of
        Inl e \<Rightarrow> (([], []), s)
      | Inr r \<Rightarrow> r)"

text \<open>
  The unsmoothed spectrum of a chunk for window \<open>w\<close>, FFT size \<open>N\<close> and hop size \<open>hop\<close>: the
  averaged spectrum of its frames when the chunk is longer than \<open>N\<close>, otherwise the spectrum
  of the single frame made of the chunk, zero-padded on the right to \<open>N\<close> samples.
\<close>

definition raw_spectrum_db :: "real list \<Rightarrow> nat \<Rightarrow> nat \<Rightarrow> complex list \<Rightarrow> real list" where
  "raw_spectrum_db w N hop samples =
     (if N < length samples then averaged_spectrum_db w N hop samples
      else map power_to_db
             (fftshift (periodogram w (samples @ replicate (N - length samples) 0))))"

text \<open>The hop size of \<open>_process_long_sequence\<close>: \<open>fft_size - overlap_samples\<close>.\<close>

definition hop_size :: "SpectrumProcessor \<Rightarrow> nat" where
  "hop_size s = nat (fft_size s - overlap_samples s)"

text \<open>
  The processor \<open>SpectrumProcessor(fft_size=4, sample_rate=2.4e6)\<close> (overlap 0.5, Hann
  window, no pyfftw), on which the examples below are evaluated.
\<close>

definition example_processor :: SpectrumProcessor where
  "example_processor = projr (SpectrumProcessor_init 4 2400000 0.5 ''hann'' False)"

section \<open>Drop-oldest policy of the acquisition queue\<close>

lemma enqueue_chunk_not_full:
  "\<not> full q \<Longrightarrow> enqueue_chunk q x = (None, q\<lparr>items := items q @ [x]\<rparr>)"
  by (simp add: enqueue_chunk_def put_nowait_def)

lemma enqueue_chunk_full:
  assumes "full q" and "int (length (items q)) = maxsize q"
  shows "enqueue_chunk q x = (None, q\<lparr>items := tl (items q) @ [x]\<rparr>)"
proof -
  from assms have pos: "0 < length (items q)"
    by (auto simp: full_def qsize_def)
  then obtain y ys where ys: "items q = y # ys"
    by (cases "items q") auto
  have nf: "\<not> full (q\<lparr>items := ys\<rparr>)"
    using assms ys by (auto simp: full_def qsize_def)
  show ?thesis
    using assms(1) ys nf
    by (simp add: enqueue_chunk_def put_nowait_def get_nowait_def)
qed

lemma enqueue_chunk_bounded:
  assumes "0 < maxsize q" and "int (length (items q)) \<le> maxsize q"
  shows "enqueue_chunk q x =
           (None, q\<lparr>items := drop (Suc (length (items q)) - nat (maxsize q)) (items q @ [x])\<rparr>)"
proof (cases "full q")
  case True
  with assms have eq: "int (length (items q)) = maxsize q"
    by (auto simp: full_def qsize_def)
  then have n: "nat (maxsize q) = length (items q)" by simp
  from assms eq have "items q \<noteq> []" by auto
  then have "drop (Suc 0) (items q @ [x]) = tl (items q) @ [x]"
    by (cases "items q") auto
  with enqueue_chunk_full[OF True eq] n show ?thesis
    by (simp add: Suc_diff_le)
next
  case False
  with assms have "length (items q) < nat (maxsize q)"
    by (auto simp: full_def qsize_def)
  then have "Suc (length (items q)) - nat (maxsize q) = 0" by simp
  with enqueue_chunk_not_full[OF False] show ?thesis by simp
qed

lemma drop_oldest_step:
  assumes "length xs \<le> m"
  shows "drop (length (drop (Suc (length xs) - m) (xs @ [x])) + length cs - m)
              (drop (Suc (length xs) - m) (xs @ [x]) @ cs)
         = drop (length xs + length (x # cs) - m) (xs @ x # cs)"
proof -
  let ?k = "Suc (length xs) - m"
  have k_le: "?k \<le> length (xs @ [x])" by simp
  have "drop ?k (xs @ [x]) @ cs = drop ?k ((xs @ [x]) @ cs)"
    using k_le by (metis diff_is_0_eq drop0 drop_append)
  then have a: "drop ?k (xs @ [x]) @ cs = drop ?k (xs @ x # cs)"
    by simp
  have b: "length (drop ?k (xs @ [x])) + length cs - m + ?k = length xs + length (x # cs) - m"
    using assms by auto
  show ?thesis
    unfolding a drop_drop b ..
qed

lemma acquisition_worker_queue:
  assumes "0 < maxsize (data_queue c)"
    and "int (length (items (data_queue c))) \<le> maxsize (data_queue c)"
  shows "maxsize (data_queue (acquisition_worker c (map Inr cs))) = maxsize (data_queue c)
       \<and> items (data_queue (acquisition_worker c (map Inr cs))) =
              drop (length (items (data_queue c)) + length cs - nat (maxsize (data_queue c)))
                   (items (data_queue c) @ cs)"
  using assms
proof (induction cs arbitrary: c)
  case Nil
  then show ?case by simp
next
  case (Cons x cs)
  define q where "q = data_queue c"
  define m where "m = nat (maxsize q)"
  define xs where "xs = items q"
  define ys where "ys = drop (Suc (length xs) - m) (xs @ [x])"
  define c1 where
    "c1 = c\<lparr>data_queue := q\<lparr>items := ys\<rparr>,
             samples_processed := samples_processed c + length x\<rparr>"
  have le: "length xs \<le> m"
    using Cons.prems by (simp add: q_def m_def xs_def)
  have step: "enqueue_chunk (data_queue c) x = (None, q\<lparr>items := ys\<rparr>)"
    using enqueue_chunk_bounded[OF Cons.prems] by (simp add: q_def m_def xs_def ys_def)
  have unfold: "acquisition_worker c (map Inr (x # cs)) = acquisition_worker c1 (map Inr cs)"
    using step by (simp add: c1_def)
  have q1: "maxsize (data_queue c1) = maxsize q" "items (data_queue c1) = ys"
    by (simp_all add: c1_def)
  have pos1: "0 < maxsize (data_queue c1)"
    using Cons.prems q1 by (simp add: q_def)
  have le1: "int (length (items (data_queue c1))) \<le> maxsize (data_queue c1)"
    using le Cons.prems(1) by (simp add: q1 ys_def m_def q_def)
  have ih: "maxsize (data_queue (acquisition_worker c1 (map Inr cs))) = maxsize q
       \<and> items (data_queue (acquisition_worker c1 (map Inr cs))) =
              drop (length ys + length cs - m) (ys @ cs)"
    using Cons.IH[OF pos1 le1] by (simp add: q1 m_def)
  have "drop (length ys + length cs - m) (ys @ cs)
          = drop (length xs + length (x # cs) - m) (xs @ x # cs)"
    unfolding ys_def by (rule drop_oldest_step[OF le])
  with ih show ?case
    unfolding unfold by (simp add: q_def m_def xs_def)
qed

text \<open>
  C6. The queue is created with capacity 10. A push onto a full queue removes exactly the
  oldest chunk and appends the new one, and no push raises or waits; with nothing drained,
  the queue holds the last \<open>min n 10\<close> of the \<open>n\<close> chunks read, in arrival order, so exactly
  the 10 most recent ones once more than 10 were pushed.
\<close>

theorem queue_drop_oldest:
  "maxsize (data_queue (controller_init :: 'a controller)) = 10
   \<and> (\<forall>(q :: 'a list Queue) x. maxsize q = 10 \<and> length (items q) = 10 \<longrightarrow>
         enqueue_chunk q x = (None, q\<lparr>items := tl (items q) @ [x]\<rparr>))
   \<and> items (data_queue (acquisition_worker (controller_init :: 'a controller) (map Inr cs)))
       = drop (length cs - 10) cs
   \<and> (10 < length cs \<longrightarrow>
        length (items (data_queue (acquisition_worker (controller_init :: 'a controller)
                                     (map Inr cs)))) = 10)"
proof -
  let ?c0 = "controller_init :: 'a controller"
  have m: "maxsize (data_queue ?c0) = 10"
    by (simp add: controller_init_def Queue_init_def)
  have e: "items (data_queue ?c0) = []"
    by (simp add: controller_init_def Queue_init_def)
  have step: "enqueue_chunk q x = (None, q\<lparr>items := tl (items q) @ [x]\<rparr>)"
    if "maxsize q = 10 \<and> length (items q) = 10" for q :: "'a list Queue" and x
    using that by (intro enqueue_chunk_full) (auto simp: full_def qsize_def)
  have its: "items (data_queue (acquisition_worker ?c0 (map Inr cs))) = drop (length cs - 10) cs"
    using acquisition_worker_queue[of ?c0 cs] m e by simp
  show ?thesis
    using m step its by auto
qed

theorem queue_drop_oldest_witness:
  "enqueue_chunk \<lparr>maxsize = 10, items = [[0], [1], [2], [3], [4], [5], [6], [7], [8], [9::nat]]\<rparr> [10]
     = (None, \<lparr>maxsize = 10, items = [[1], [2], [3], [4], [5], [6], [7], [8], [9], [10]]\<rparr>)
   \<and> items (data_queue (acquisition_worker controller_init
         (map Inr [[0], [1], [2], [3], [4], [5], [6], [7], [8], [9], [10], [11::nat]])))
       = [[2], [3], [4], [5], [6], [7], [8], [9], [10], [11]]
   \<and> length (items (data_queue (acquisition_worker controller_init
         (map Inr [[0], [1], [2], [3], [4], [5], [6], [7], [8], [9], [10], [11::nat]])))) = 10"
  using queue_drop_oldest[of "[[0], [1], [2], [3], [4], [5], [6], [7], [8], [9], [10], [11::nat]]"]
  by simp

section \<open>Error isolation in the plugin supervisor\<close>

lemma safe_execute_name: "plugin_name (fst (safe_execute now p d w)) = name p"
  by (simp add: safe_execute_def Let_def split: prod.splits sum.splits)

lemma safe_execute_success:
  "success (fst (safe_execute now p d w)) = (\<not> isl (fst (process p d w)))"
  by (auto simp add: safe_execute_def Let_def split: prod.splits sum.splits)

lemma run_tasks_rel:
  "list_all2 (\<lambda>p r. plugin_name r = name p
                 \<and> (always_raises p \<longrightarrow> \<not> success r)
                 \<and> (never_raises p \<longrightarrow> success r))
     ps (fst (run_tasks now ps d w))"
proof (induction ps arbitrary: w)
  case Nil
  then show ?case by simp
next
  case (Cons p ps)
  obtain r w1 where r: "safe_execute now p d w = (r, w1)" by force
  obtain rs w2 where rs: "run_tasks now ps d w1 = (rs, w2)" by force
  have "plugin_name r = name p" "success r = (\<not> isl (fst (process p d w)))"
    using safe_execute_name[of now p d w] safe_execute_success[of now p d w] r by simp_all
  moreover have "list_all2 (\<lambda>p r. plugin_name r = name p
                 \<and> (always_raises p \<longrightarrow> \<not> success r)
                 \<and> (never_raises p \<longrightarrow> success r)) ps rs"
    using Cons.IH[of w1] rs by simp
  ultimately show ?case
    using r rs by (auto simp: always_raises_def never_raises_def)
qed

lemma analyze_result_Inr:
  assumes "plugin_stats s (plugin_name r) = Some c"
  shows "\<exists>s1. analyze_result s (Inr r) = Inr s1
     \<and> plugins s1 = plugins s \<and> total_executions s1 = total_executions s
     \<and> dom (plugin_stats s1) = dom (plugin_stats s)
     \<and> (\<forall>nm. nm \<noteq> plugin_name r \<longrightarrow> plugin_stats s1 nm = plugin_stats s nm)
     \<and> plugin_stats s1 (plugin_name r) =
         Some (if success r then c\<lparr>n_success := n_success c + 1\<rparr>
               else c\<lparr>n_failure := n_failure c + 1\<rparr>)"
  using assms by (auto simp: analyze_result_def)

lemma analyze_results_ok:
  assumes "plugin_name ` set rs \<subseteq> dom (plugin_stats s)"
  shows "\<exists>s1. analyze_results s (map Inr rs) = Inr s1
     \<and> plugins s1 = plugins s \<and> total_executions s1 = total_executions s
     \<and> dom (plugin_stats s1) = dom (plugin_stats s)
     \<and> (\<forall>nm. nm \<notin> plugin_name ` set rs \<longrightarrow> plugin_stats s1 nm = plugin_stats s nm)
     \<and> (distinct (map plugin_name rs) \<longrightarrow>
          (\<forall>r\<in>set rs. \<forall>c. plugin_stats s (plugin_name r) = Some c \<longrightarrow>
             plugin_stats s1 (plugin_name r) =
               Some (if success r then c\<lparr>n_success := n_success c + 1\<rparr>
                     else c\<lparr>n_failure := n_failure c + 1\<rparr>)))"
  using assms
proof (induction rs arbitrary: s)
  case Nil
  then show ?case by simp
next
  case (Cons r rs)
  from Cons.prems obtain c where c: "plugin_stats s (plugin_name r) = Some c" by auto
  from analyze_result_Inr[OF c] obtain s1 where s1:
    "analyze_result s (Inr r) = Inr s1" "plugins s1 = plugins s"
    "total_executions s1 = total_executions s"
    "dom (plugin_stats s1) = dom (plugin_stats s)"
    "\<forall>nm. nm \<noteq> plugin_name r \<longrightarrow> plugin_stats s1 nm = plugin_stats s nm"
    "plugin_stats s1 (plugin_name r) =
         Some (if success r then c\<lparr>n_success := n_success c + 1\<rparr>
               else c\<lparr>n_failure := n_failure c + 1\<rparr>)"
    by blast
  have sub: "plugin_name ` set rs \<subseteq> dom (plugin_stats s1)"
    using Cons.prems s1(4) by auto
  from Cons.IH[OF sub] obtain s2 where s2:
    "analyze_results s1 (map Inr rs) = Inr s2" "plugins s2 = plugins s1"
    "total_executions s2 = total_executions s1"
    "dom (plugin_stats s2) = dom (plugin_stats s1)"
    "\<forall>nm. nm \<notin> plugin_name ` set rs \<longrightarrow> plugin_stats s2 nm = plugin_stats s1 nm"
    "distinct (map plugin_name rs) \<longrightarrow>
          (\<forall>r\<in>set rs. \<forall>c. plugin_stats s1 (plugin_name r) = Some c \<longrightarrow>
             plugin_stats s2 (plugin_name r) =
               Some (if success r then c\<lparr>n_success := n_success c + 1\<rparr>
                     else c\<lparr>n_failure := n_failure c + 1\<rparr>))"
    by blast
  have run: "analyze_results s (map Inr (r # rs)) = Inr s2"
    using s1(1) s2(1) by simp
  have a: "\<forall>nm. nm \<notin> plugin_name ` set (r # rs) \<longrightarrow> plugin_stats s2 nm = plugin_stats s nm"
    using s1(5) s2(5) by auto
  have b: "plugin_stats s2 (plugin_name r') =
               Some (if success r' then c'\<lparr>n_success := n_success c' + 1\<rparr>
                     else c'\<lparr>n_failure := n_failure c' + 1\<rparr>)"
    if d: "distinct (map plugin_name (r # rs))" and r': "r' \<in> set (r # rs)"
      and c': "plugin_stats s (plugin_name r') = Some c'" for r' c'
  proof (cases "r' = r")
    case True
    with d have "plugin_name r \<notin> plugin_name ` set rs" by auto
    with s2(5) have "plugin_stats s2 (plugin_name r) = plugin_stats s1 (plugin_name r)" by blast
    with s1(6) c c' True show ?thesis by simp
  next
    case False
    with r' have in_rs: "r' \<in> set rs" by simp
    with d have ne: "plugin_name r' \<noteq> plugin_name r" by (metis distinct.simps(2) imageI list.simps(9) list.set_map)
    with s1(5) c' have "plugin_stats s1 (plugin_name r') = Some c'" by simp
    with s2(6) d in_rs show ?thesis by simp
  qed
  show ?case
    using run s1(2,3,4) s2(2,3,4) a b by (intro exI[of _ s2]) (simp; blast)
qed


lemma run_tasks_result_of: "list_all2 result_of ps (fst (run_tasks now ps d w))"
  using run_tasks_rel[of ps now d w] unfolding result_of_def .

lemma list_all2_names:
  "list_all2 result_of ps rs \<Longrightarrow> map plugin_name rs = map name ps"
  by (induction rule: list_all2_induct) (auto simp: result_of_def)

lemma run_with_supervision_cycle:
  assumes inv: "name ` set (plugins s) \<subseteq> dom (plugin_stats s)"
  shows "\<exists>rs s1 w1. run_with_supervision now s d w = Inr (map Inr rs, s1, w1)
     \<and> list_all2 result_of (plugins s) rs
     \<and> plugins s1 = plugins s \<and> total_executions s1 = total_executions s + 1
     \<and> dom (plugin_stats s1) = dom (plugin_stats s)
     \<and> (distinct (map name (plugins s)) \<longrightarrow>
          (\<forall>p\<in>set (plugins s). \<forall>c. plugin_stats s (name p) = Some c \<longrightarrow>
             (always_raises p \<longrightarrow>
                plugin_stats s1 (name p) = Some (c\<lparr>n_failure := n_failure c + 1\<rparr>))
           \<and> (never_raises p \<longrightarrow>
                plugin_stats s1 (name p) = Some (c\<lparr>n_success := n_success c + 1\<rparr>))))"
proof -
  define s0 where "s0 = s\<lparr>total_executions := total_executions s + 1\<rparr>"
  obtain rs w1 where rt: "run_tasks now (plugins s) d w = (rs, w1)" by force
  have rel: "list_all2 result_of (plugins s) rs"
    using run_tasks_result_of[of "plugins s" now d w] rt by simp
  have names: "map plugin_name rs = map name (plugins s)"
    using list_all2_names[OF rel] .
  have "plugin_name ` set rs = name ` set (plugins s)"
    using names by (metis list.set_map)
  then have sub: "plugin_name ` set rs \<subseteq> dom (plugin_stats s0)"
    using inv by (simp add: s0_def)
  from analyze_results_ok[OF sub] obtain s1 where s1:
    "analyze_results s0 (map Inr rs) = Inr s1" "plugins s1 = plugins s0"
    "total_executions s1 = total_executions s0"
    "dom (plugin_stats s1) = dom (plugin_stats s0)"
    "distinct (map plugin_name rs) \<longrightarrow>
          (\<forall>r\<in>set rs. \<forall>c. plugin_stats s0 (plugin_name r) = Some c \<longrightarrow>
             plugin_stats s1 (plugin_name r) =
               Some (if success r then c\<lparr>n_success := n_success c + 1\<rparr>
                     else c\<lparr>n_failure := n_failure c + 1\<rparr>))"
    by blast
  have run: "run_with_supervision now s d w = Inr (map Inr rs, s1, w1)"
    using rt s1(1) by (simp add: run_with_supervision_def gather_def s0_def)
  have cnt: "(always_raises p \<longrightarrow>
                plugin_stats s1 (name p) = Some (c\<lparr>n_failure := n_failure c + 1\<rparr>))
           \<and> (never_raises p \<longrightarrow>
                plugin_stats s1 (name p) = Some (c\<lparr>n_success := n_success c + 1\<rparr>))"
    if d: "distinct (map name (plugins s))" and p: "p \<in> set (plugins s)"
      and c: "plugin_stats s (name p) = Some c" for p c
  proof -
    from p obtain i where i: "i < length (plugins s)" "plugins s ! i = p"
      by (auto simp: in_set_conv_nth)
    with rel have "rs ! i \<in> set rs" "result_of p (rs ! i)"
      by (auto simp: list_all2_conv_all_nth)
    then obtain r where r: "r \<in> set rs" "result_of p r" by blast
    from d names have "distinct (map plugin_name rs)" by simp
    with s1(5) have all: "\<forall>r\<in>set rs. \<forall>c. plugin_stats s0 (plugin_name r) = Some c \<longrightarrow>
             plugin_stats s1 (plugin_name r) =
               Some (if success r then c\<lparr>n_success := n_success c + 1\<rparr>
                     else c\<lparr>n_failure := n_failure c + 1\<rparr>)"
      by blast
    have nm: "plugin_name r = name p" using r(2) by (simp add: result_of_def)
    have "plugin_stats s0 (plugin_name r) = Some c" using c nm by (simp add: s0_def)
    with all r(1)
    have "plugin_stats s1 (plugin_name r) =
               Some (if success r then c\<lparr>n_success := n_success c + 1\<rparr>
                     else c\<lparr>n_failure := n_failure c + 1\<rparr>)"
      by blast
    then have "plugin_stats s1 (name p) =
               Some (if success r then c\<lparr>n_success := n_success c + 1\<rparr>
                     else c\<lparr>n_failure := n_failure c + 1\<rparr>)"
      using nm by simp
    with r(2) show ?thesis by (auto simp: result_of_def)
  qed
  show ?thesis
    using run rel s1(2,3,4) cnt by (intro exI[of _ rs] exI[of _ s1] exI[of _ w1]) (simp add: s0_def)
qed

lemma dispatch_cycles_ok:
  assumes inv: "name ` set (plugins s) \<subseteq> dom (plugin_stats s)"
  shows "\<exists>rss s1 w1. dispatch_cycles now s ds w = Inr (rss, s1, w1)
     \<and> length rss = length ds
     \<and> (\<forall>results\<in>set rss. \<exists>rs. results = map Inr rs \<and> list_all2 result_of (plugins s) rs)
     \<and> plugins s1 = plugins s \<and> total_executions s1 = total_executions s + length ds
     \<and> (distinct (map name (plugins s)) \<longrightarrow>
          (\<forall>p\<in>set (plugins s). \<forall>c. plugin_stats s (name p) = Some c \<longrightarrow>
             (always_raises p \<longrightarrow>
                plugin_stats s1 (name p) = Some (c\<lparr>n_failure := n_failure c + length ds\<rparr>))
           \<and> (never_raises p \<longrightarrow>
                plugin_stats s1 (name p) = Some (c\<lparr>n_success := n_success c + length ds\<rparr>))))"
  using assms
proof (induction ds arbitrary: s w)
  case Nil
  then show ?case by simp
next
  case (Cons d ds)
  from run_with_supervision_cycle[OF Cons.prems, of now d w] obtain rs s1 w1 where c1:
    "run_with_supervision now s d w = Inr (map Inr rs, s1, w1)"
    "list_all2 result_of (plugins s) rs"
    "plugins s1 = plugins s" "total_executions s1 = total_executions s + 1"
    "dom (plugin_stats s1) = dom (plugin_stats s)"
    "distinct (map name (plugins s)) \<longrightarrow>
          (\<forall>p\<in>set (plugins s). \<forall>c. plugin_stats s (name p) = Some c \<longrightarrow>
             (always_raises p \<longrightarrow>
                plugin_stats s1 (name p) = Some (c\<lparr>n_failure := n_failure c + 1\<rparr>))
           \<and> (never_raises p \<longrightarrow>
                plugin_stats s1 (name p) = Some (c\<lparr>n_success := n_success c + 1\<rparr>)))"
    by blast
  have inv1: "name ` set (plugins s1) \<subseteq> dom (plugin_stats s1)"
    using Cons.prems c1(3,5) by simp
  from Cons.IH[OF inv1, of w1] obtain rss s2 w2 where c2:
    "dispatch_cycles now s1 ds w1 = Inr (rss, s2, w2)"
    "length rss = length ds"
    "\<forall>results\<in>set rss. \<exists>rs. results = map Inr rs \<and> list_all2 result_of (plugins s1) rs"
    "plugins s2 = plugins s1" "total_executions s2 = total_executions s1 + length ds"
    "distinct (map name (plugins s1)) \<longrightarrow>
          (\<forall>p\<in>set (plugins s1). \<forall>c. plugin_stats s1 (name p) = Some c \<longrightarrow>
             (always_raises p \<longrightarrow>
                plugin_stats s2 (name p) = Some (c\<lparr>n_failure := n_failure c + length ds\<rparr>))
           \<and> (never_raises p \<longrightarrow>
                plugin_stats s2 (name p) = Some (c\<lparr>n_success := n_success c + length ds\<rparr>)))"
    by blast
  have run: "dispatch_cycles now s (d # ds) w = Inr (map Inr rs # rss, s2, w2)"
    using c1(1) c2(1) by simp
  have shape: "\<forall>results\<in>set (map Inr rs # rss).
                 \<exists>rs. results = map Inr rs \<and> list_all2 result_of (plugins s) rs"
    using c1(2) c2(3) c1(3) by auto
  have cnt: "(always_raises p \<longrightarrow>
                plugin_stats s2 (name p) = Some (c\<lparr>n_failure := n_failure c + length (d # ds)\<rparr>))
           \<and> (never_raises p \<longrightarrow>
                plugin_stats s2 (name p) = Some (c\<lparr>n_success := n_success c + length (d # ds)\<rparr>))"
    if dst: "distinct (map name (plugins s))" and p: "p \<in> set (plugins s)"
      and c: "plugin_stats s (name p) = Some c" for p c
  proof (intro conjI impI)
    assume ar: "always_raises p"
    with c1(6) dst p c
    have "plugin_stats s1 (name p) = Some (c\<lparr>n_failure := n_failure c + 1\<rparr>)" by blast
    with c2(6) dst p ar c1(3)
    have "plugin_stats s2 (name p) =
            Some (c\<lparr>n_failure := n_failure c + 1\<rparr>
                    \<lparr>n_failure := n_failure (c\<lparr>n_failure := n_failure c + 1\<rparr>) + length ds\<rparr>)"
      by simp
    then show "plugin_stats s2 (name p) = Some (c\<lparr>n_failure := n_failure c + length (d # ds)\<rparr>)"
      by simp
  next
    assume nr: "never_raises p"
    with c1(6) dst p c
    have "plugin_stats s1 (name p) = Some (c\<lparr>n_success := n_success c + 1\<rparr>)" by blast
    with c2(6) dst p nr c1(3)
    have "plugin_stats s2 (name p) =
            Some (c\<lparr>n_success := n_success c + 1\<rparr>
                    \<lparr>n_success := n_success (c\<lparr>n_success := n_success c + 1\<rparr>) + length ds\<rparr>)"
      by simp
    then show "plugin_stats s2 (name p) = Some (c\<lparr>n_success := n_success c + length (d # ds)\<rparr>)"
      by simp
  qed
  show ?case
    using run c2(2) shape c2(4) c1(3) c2(5) c1(4) cnt
    by (intro exI[of _ "map Inr rs # rss"] exI[of _ s2] exI[of _ w2]) simp
qed

lemma init_stats:
  "p \<in> set ps \<Longrightarrow>
     plugin_stats (PluginSupervisor_init ps nm) (name p) = Some \<lparr>n_success = 0, n_failure = 0\<rparr>"
proof -
  assume p: "p \<in> set ps"
  let ?al = "map (\<lambda>p. (name p, \<lparr>n_success = 0, n_failure = 0\<rparr>)) ps"
  have "name p \<in> fst ` set ?al" using p by force
  then obtain v where v: "map_of ?al (name p) = Some v"
    by (metis domD dom_map_of_conv_image_fst)
  then have "(name p, v) \<in> set ?al" by (rule map_of_SomeD)
  then have "v = \<lparr>n_success = 0, n_failure = 0\<rparr>" by auto
  with v show ?thesis by (simp add: PluginSupervisor_init_def)
qed

text \<open>
  C1. An exception raised by a plugin's \<open>process\<close> is turned by \<open>_safe_execute\<close> into a failure
  result with the plugin's name, the exception and the elapsed time. A supervisor built by
  \<open>__init__\<close> never raises from \<open>run_with_supervision\<close>, whatever the plugins do: every cycle
  returns one result per plugin, in plugin order, also when all of them failed. With distinct
  plugin names, after \<open>n\<close> cycles a plugin that always raises has failure count \<open>n\<close>, and every
  plugin that never raises has success count \<open>n\<close>.
\<close>

theorem supervisor_isolation:
  "(\<forall>e. fst (process p d w) = Inl e \<longrightarrow>
        fst (safe_execute now p d w) =
          \<lparr>plugin_name = name p, success = False, data = None, error = Some e,
           execution_time_ms = (now (snd (process p d w)) - now w) * 1000\<rparr>)
   \<and> (\<exists>rss s1 w1.
         dispatch_cycles now (PluginSupervisor_init ps nm) ds w0 = Inr (rss, s1, w1)
       \<and> length rss = length ds
       \<and> (\<forall>results\<in>set rss. \<exists>rs. results = map Inr rs \<and> list_all2 result_of ps rs)
       \<and> total_executions s1 = length ds
       \<and> (distinct (map name ps) \<longrightarrow>
            (\<forall>q\<in>set ps.
               (always_raises q \<longrightarrow>
                  plugin_stats s1 (name q) = Some \<lparr>n_success = 0, n_failure = length ds\<rparr>)
             \<and> (never_raises q \<longrightarrow>
                  plugin_stats s1 (name q) = Some \<lparr>n_success = length ds, n_failure = 0\<rparr>))))"
proof (intro conjI)
  show "\<forall>e. fst (process p d w) = Inl e \<longrightarrow>
        fst (safe_execute now p d w) =
          \<lparr>plugin_name = name p, success = False, data = None, error = Some e,
           execution_time_ms = (now (snd (process p d w)) - now w) * 1000\<rparr>"
    by (auto simp: safe_execute_def Let_def split: prod.splits)
next
  let ?s = "PluginSupervisor_init ps nm"
  have ps: "plugins ?s = ps" and te: "total_executions ?s = 0"
    by (simp_all add: PluginSupervisor_init_def)
  have inv: "name ` set (plugins ?s) \<subseteq> dom (plugin_stats ?s)"
    using init_stats[of _ ps nm] ps by auto
  from dispatch_cycles_ok[OF inv, of now ds w0] obtain rss s1 w1 where r:
    "dispatch_cycles now ?s ds w0 = Inr (rss, s1, w1)"
    "length rss = length ds"
    "\<forall>results\<in>set rss. \<exists>rs. results = map Inr rs \<and> list_all2 result_of (plugins ?s) rs"
    "total_executions s1 = total_executions ?s + length ds"
    "distinct (map name (plugins ?s)) \<longrightarrow>
          (\<forall>p\<in>set (plugins ?s). \<forall>c. plugin_stats ?s (name p) = Some c \<longrightarrow>
             (always_raises p \<longrightarrow>
                plugin_stats s1 (name p) = Some (c\<lparr>n_failure := n_failure c + length ds\<rparr>))
           \<and> (never_raises p \<longrightarrow>
                plugin_stats s1 (name p) = Some (c\<lparr>n_success := n_success c + length ds\<rparr>)))"
    by blast
  have cnt: "(always_raises q \<longrightarrow>
                  plugin_stats s1 (name q) = Some \<lparr>n_success = 0, n_failure = length ds\<rparr>)
             \<and> (never_raises q \<longrightarrow>
                  plugin_stats s1 (name q) = Some \<lparr>n_success = length ds, n_failure = 0\<rparr>)"
    if "distinct (map name ps)" "q \<in> set ps" for q
    using r(5) that init_stats[OF that(2), of nm] unfolding ps by fastforce
  show "\<exists>rss s1 w1.
         dispatch_cycles now ?s ds w0 = Inr (rss, s1, w1)
       \<and> length rss = length ds
       \<and> (\<forall>results\<in>set rss. \<exists>rs. results = map Inr rs \<and> list_all2 result_of ps rs)
       \<and> total_executions s1 = length ds
       \<and> (distinct (map name ps) \<longrightarrow>
            (\<forall>q\<in>set ps.
               (always_raises q \<longrightarrow>
                  plugin_stats s1 (name q) = Some \<lparr>n_success = 0, n_failure = length ds\<rparr>)
             \<and> (never_raises q \<longrightarrow>
                  plugin_stats s1 (name q) = Some \<lparr>n_success = length ds, n_failure = 0\<rparr>)))"
    using r(1,2,3,4) cnt unfolding ps te
    by (intro exI[of _ rss] exI[of _ s1] exI[of _ w1]) simp
qed

theorem supervisor_isolation_witness:
  "distinct (map name
      [\<lparr>name = ''SpectrumPlugin'', process = (\<lambda>(d::nat) (w::unit). (Inr d, w))\<rparr>,
       \<lparr>name = ''FaultyPlugin'',
        process = (\<lambda>d w. (Inl (RuntimeError ''Simulated plugin failure''), w))\<rparr>])
   \<and> always_raises
        \<lparr>name = ''FaultyPlugin'',
         process = (\<lambda>(d::nat) (w::unit). (Inl (RuntimeError ''Simulated plugin failure'') :: exn + nat, w))\<rparr>
   \<and> never_raises \<lparr>name = ''SpectrumPlugin'', process = (\<lambda>(d::nat) (w::unit). (Inr d :: exn + nat, w))\<rparr>
   \<and> (\<exists>rss s1 w1.
         dispatch_cycles (\<lambda>w. 0)
           (PluginSupervisor_init
              [\<lparr>name = ''SpectrumPlugin'', process = (\<lambda>(d::nat) (w::unit). (Inr d, w))\<rparr>,
               \<lparr>name = ''FaultyPlugin'',
                process = (\<lambda>d w. (Inl (RuntimeError ''Simulated plugin failure''), w))\<rparr>]
              ''PluginSupervisor'')
           [0, 1, 2] () = Inr (rss, s1, w1)
       \<and> length rss = 3
       \<and> plugin_stats s1 ''FaultyPlugin'' = Some \<lparr>n_success = 0, n_failure = 3\<rparr>
       \<and> plugin_stats s1 ''SpectrumPlugin'' = Some \<lparr>n_success = 3, n_failure = 0\<rparr>)"
proof -
  let ?good = "\<lparr>name = ''SpectrumPlugin'', process = (\<lambda>(d::nat) (w::unit). (Inr d :: exn + nat, w))\<rparr>"
  let ?bad = "\<lparr>name = ''FaultyPlugin'',
        process = (\<lambda>(d::nat) (w::unit). (Inl (RuntimeError ''Simulated plugin failure'') :: exn + nat, w))\<rparr>"
  have d: "distinct (map name [?good, ?bad])" by simp
  have a: "always_raises ?bad" by (simp add: always_raises_def)
  have n: "never_raises ?good" by (simp add: never_raises_def)
  from supervisor_isolation[of ?good 0 "()" "\<lambda>w. 0" "[?good, ?bad]" "''PluginSupervisor''"
      "[0, 1, 2]" "()"]
  obtain rss s1 w1 where r:
    "dispatch_cycles (\<lambda>w. 0) (PluginSupervisor_init [?good, ?bad] ''PluginSupervisor'')
        [0, 1, 2] () = Inr (rss, s1, w1)"
    "length rss = length [0::nat, 1, 2]"
    "distinct (map name [?good, ?bad]) \<longrightarrow>
            (\<forall>q\<in>set [?good, ?bad].
               (always_raises q \<longrightarrow>
                  plugin_stats s1 (name q) = Some \<lparr>n_success = 0, n_failure = length [0::nat, 1, 2]\<rparr>)
             \<and> (never_raises q \<longrightarrow>
                  plugin_stats s1 (name q) = Some \<lparr>n_success = length [0::nat, 1, 2], n_failure = 0\<rparr>))"
    by blast
  from r(3) d a n have
    "plugin_stats s1 ''FaultyPlugin'' = Some \<lparr>n_success = 0, n_failure = 3\<rparr>"
    "plugin_stats s1 ''SpectrumPlugin'' = Some \<lparr>n_success = 3, n_failure = 0\<rparr>"
    by auto
  with d a n r(1,2) show ?thesis by auto
qed


section \<open>Demodulators: sideband selection and output range\<close>

lemma lower_usb: "lower ''usb'' = ''usb''" "lower ''lsb'' = ''lsb''" "lower ''USB'' = ''usb''"
  by (simp_all add: lower_def lower_char_def)

lemma np_clip_unit: "\<bar>np_clip (- 1.0) 1.0 x\<bar> \<le> 1"
  by (auto simp: np_clip_def min_def max_def)

lemma agc_try_bounded:
  assumes "agc_try sp audio t = Inr a"
  shows "\<forall>x\<in>set a. \<bar>x\<bar> \<le> 1"
  using assms np_clip_unit
  by (auto simp: agc_try_def Let_def split: sum.splits if_splits)

lemma apply_agc_bounded:
  assumes "0 \<le> t" "t \<le> 1"
  shows "\<forall>x\<in>set (apply_agc sp audio t a r). \<bar>x\<bar> \<le> 1"
proof (cases "audio = []")
  case True
  then show ?thesis by (simp add: apply_agc_def)
next
  case False
  show ?thesis
  proof (cases "agc_try sp audio t")
    case (Inr a1)
    with False agc_try_bounded[OF Inr] show ?thesis by (simp add: apply_agc_def)
  next
    case (Inl e)
    define mx where "mx = Max (set (map abs audio))"
    have le: "\<bar>x\<bar> \<le> mx" if "x \<in> set audio" for x
      unfolding mx_def using that by (intro Max_ge) auto
    show ?thesis
    proof (cases "mx > 0")
      case True
      have "\<bar>x / mx * t\<bar> \<le> 1" if "x \<in> set audio" for x
      proof -
        have "\<bar>x / mx * t\<bar> = \<bar>x\<bar> / mx * t" using True assms by (simp add: abs_mult)
        also have "\<dots> \<le> 1 * t"
          using le[OF that] True assms by (intro mult_right_mono) auto
        finally show ?thesis using assms by simp
      qed
      with False Inl True show ?thesis by (auto simp: apply_agc_def mx_def Let_def)
    next
      case F: False
      have "\<bar>x\<bar> \<le> 1" if "x \<in> set audio" for x
        using le[OF that] F by simp
      with False Inl F show ?thesis by (auto simp: apply_agc_def mx_def Let_def)
    qed
  qed
qed

lemma zeros_bounded: "\<forall>x\<in>set (np_zeros n). \<bar>x\<bar> \<le> 1"
  by (simp add: np_zeros_def)

lemma am_bounded: "\<forall>x\<in>set (fst (am_demodulate sp st iq sr bw)). \<bar>x\<bar> \<le> 1"
  using apply_agc_bounded[of "0.3" sp _ "0.01" "0.1"]
  by (simp add: am_demodulate_def Let_def split: prod.splits)

lemma fm_bounded: "\<forall>x\<in>set (fst (fm_demodulate sp st iq sr bw dev)). \<bar>x\<bar> \<le> 1"
proof (cases "fm_try sp st iq sr bw dev")
  case (Inl e)
  then show ?thesis using zeros_bounded by (simp add: fm_demodulate_def)
next
  case (Inr r)
  then have "\<exists>audio. fst r = apply_agc sp audio 0.4 0.001 0.1"
    by (auto simp: fm_try_def Let_def split: sum.splits prod.splits)
  with Inr apply_agc_bounded[of "0.4" sp _ "0.001" "0.1"] show ?thesis
    by (auto simp: fm_demodulate_def)
qed

lemma ssb_bounded: "\<forall>x\<in>set (fst (ssb_demodulate sp st iq mode sr bw)). \<bar>x\<bar> \<le> 1"
proof (cases "ssb_try sp st iq mode sr bw")
  case (Inl e)
  then show ?thesis using zeros_bounded by (simp add: ssb_demodulate_def)
next
  case (Inr r)
  then have "\<exists>audio. fst r = apply_agc sp audio 0.4 0.001 0.1"
    by (auto simp: ssb_try_def Let_def split: sum.splits prod.splits if_splits)
  with Inr apply_agc_bounded[of "0.4" sp _ "0.001" "0.1"] show ?thesis
    by (auto simp: ssb_demodulate_def)
qed

lemma cw_bounded: "\<forall>x\<in>set (fst (cw_demodulate sp st iq sr tone bw)). \<bar>x\<bar> \<le> 1"
  using apply_agc_bounded[of "0.5" sp _ "0.0001" "0.1"]
  by (simp add: cw_demodulate_def Let_def split: prod.splits)

text \<open>
  C10. For every chunk, sample rate and bandwidth, SSB demodulation in mode \<open>usb\<close> and in mode
  \<open>lsb\<close> return the same audio (and leave the same filter cache): the real part of the
  conjugate is the real part, and the rest of the processing is shared.
\<close>

theorem ssb_usb_lsb_same_audio:
  "ssb_demodulate sp st iq_samples ''usb'' rate bandwidth
     = ssb_demodulate sp st iq_samples ''lsb'' rate bandwidth"
  by (simp add: ssb_demodulate_def ssb_try_def lower_usb o_def)

text \<open>
  C8. Every sample returned by the AM, FM, SSB and CW demodulators lies in \<open>[-1, 1]\<close>, for every
  chunk and every behaviour of the filtering library; AM and CW end with the AGC step, and so
  do FM and SSB unless their \<open>try\<close> block raised, in which case the output is silence.
\<close>

theorem demodulator_output_bounded:
  "(\<forall>x\<in>set (fst (am_demodulate sp st iq sr bw)). \<bar>x\<bar> \<le> 1)
   \<and> (\<forall>x\<in>set (fst (fm_demodulate sp st iq sr bw dev)). \<bar>x\<bar> \<le> 1)
   \<and> (\<forall>x\<in>set (fst (ssb_demodulate sp st iq mode sr bw)). \<bar>x\<bar> \<le> 1)
   \<and> (\<forall>x\<in>set (fst (cw_demodulate sp st iq sr tone cbw)). \<bar>x\<bar> \<le> 1)
   \<and> (\<exists>a. fst (am_demodulate sp st iq sr bw) = apply_agc sp a 0.3 0.01 0.1)
   \<and> (\<exists>a. fst (cw_demodulate sp st iq sr tone cbw) = apply_agc sp a 0.5 0.0001 0.1)"
proof -
  have "\<exists>a. fst (am_demodulate sp st iq sr bw) = apply_agc sp a 0.3 0.01 0.1"
    by (auto simp: am_demodulate_def Let_def split: prod.splits)
  moreover have "\<exists>a. fst (cw_demodulate sp st iq sr tone cbw) = apply_agc sp a 0.5 0.0001 0.1"
    by (auto simp: cw_demodulate_def Let_def split: prod.splits)
  ultimately show ?thesis
    using am_bounded[of sp st iq sr bw] fm_bounded[of sp st iq sr bw dev]
      ssb_bounded[of sp st iq mode sr bw] cw_bounded[of sp st iq sr tone cbw]
    by blast
qed

theorem demodulator_output_bounded_witness:
  "fst (am_demodulate scipy_raising (AudioDemodulators_init 48000) [1, 0] 48000 None)
     = [0.3, - 0.3]
   \<and> \<bar>0.3 :: real\<bar> \<le> 1 \<and> \<bar>- 0.3 :: real\<bar> \<le> 1"
proof -
  have "fst (am_demodulate scipy_raising (AudioDemodulators_init 48000) [1, 0] 48000 None)
          = [0.3, - 0.3]"
    by (simp add: am_demodulate_def AudioDemodulators_init_def apply_agc_def agc_try_def
        scipy_raising_def np_mean_def py_int_def Let_def)
  with demodulator_output_bounded[of scipy_raising "AudioDemodulators_init 48000" "[1, 0]" 48000
      None] show ?thesis by simp
qed

section \<open>Demodulators on silent input\<close>

lemma filter_zeros:
  assumes "zero_preserving sp"
  shows "fst (apply_audio_filter sp st (np_zeros n) sr bw ft lo hi) = np_zeros n"
  using assms
  by (auto simp: apply_audio_filter_def zero_preserving_def Let_def
      split: option.splits sum.splits butter_call.splits)

lemma deemphasis_zeros:
  assumes "zero_preserving sp"
  shows "apply_deemphasis sp (np_zeros n) sr tc = np_zeros n"
  using assms
  by (auto simp: apply_deemphasis_def zero_preserving_def Let_def
      split: option.splits sum.splits prod.splits)

lemma resample_zeros:
  assumes "zero_preserving sp" "sr \<noteq> 0" "sr \<noteq> audio_sample_rate st"
  shows "resample_audio sp (np_zeros n) sr (audio_sample_rate st) =
           np_zeros (if resample_returns sp st n sr then resampled_length st n sr else n)"
proof (cases "resample sp (np_zeros n) (py_int (real n * (audio_sample_rate st / sr)))")
  case (Inl e)
  then have "\<not> resample_returns sp st n sr"
    using assms(3) by (simp add: resample_returns_def)
  with Inl assms(2,3) show ?thesis
    by (simp add: resample_audio_def py_truediv_def np_zeros_def)
next
  case (Inr ys)
  then have r: "resample_returns sp st n sr"
    by (simp add: resample_returns_def)
  from Inr assms(1) have "ys = np_zeros (nat (py_int (real n * (audio_sample_rate st / sr))))"
    unfolding zero_preserving_def by blast
  with Inr r assms(2,3) show ?thesis
    by (simp add: resample_audio_def py_truediv_def resampled_length_def np_zeros_def)
qed

lemma resampled_length_same_rate:
  "0 < audio_sample_rate st \<Longrightarrow> resampled_length st n (audio_sample_rate st) = n"
  by (simp add: resampled_length_def py_int_def)

lemma filtfilt_zeros:
  "zero_preserving sp \<Longrightarrow> filtfilt sp b a (replicate n 0) = Inr ys
     \<Longrightarrow> (\<forall>m\<in>set ys. m = 0) \<and> length ys = n"
  unfolding zero_preserving_def np_zeros_def by fastforce

lemma agc_try_zeros:
  assumes "zero_preserving sp" "agc_try sp (replicate n 0) t = Inr ys"
  shows "ys = replicate n 0"
  using assms(2)
  by (auto simp: agc_try_def Let_def np_clip_def np_mean_def sum_list_replicate
      split: sum.splits if_splits dest!: filtfilt_zeros[OF assms(1)])

lemma agc_zeros:
  assumes "zero_preserving sp"
  shows "apply_agc sp (np_zeros n) t a r = np_zeros n"
proof (cases "n = 0")
  case True
  then show ?thesis by (simp add: apply_agc_def np_zeros_def)
next
  case False
  have mx: "Max (set (map abs (replicate n (0::real)))) = 0" using False by simp
  show ?thesis
  proof (cases "agc_try sp (replicate n 0) t")
    case (Inl e)
    with False mx show ?thesis by (simp add: apply_agc_def np_zeros_def)
  next
    case (Inr ys)
    with agc_try_zeros[OF assms Inr] False show ?thesis
      by (simp add: apply_agc_def np_zeros_def)
  qed
qed


lemma filter_keeps_rate:
  "audio_sample_rate (snd (apply_audio_filter sp st audio sr bw ft lo hi)) = audio_sample_rate st"
  by (auto simp: apply_audio_filter_def Let_def
      split: option.splits sum.splits butter_call.splits)

lemma filter_zeros_pair:
  assumes "zero_preserving sp"
    and "apply_audio_filter sp st (np_zeros n) sr bw ft lo hi = (audio, st1)"
  shows "audio = np_zeros n \<and> audio_sample_rate st1 = audio_sample_rate st"
  using filter_zeros[OF assms(1), of st n sr bw ft lo hi]
    filter_keeps_rate[of sp st "np_zeros n" sr bw ft lo hi] assms(2)
  by simp

lemma silent_tail:
  assumes "zero_preserving sp" "0 < sr" "audio_sample_rate st1 = audio_sample_rate st"
  shows "apply_agc sp
           (if sr \<noteq> audio_sample_rate st1
            then resample_audio sp (np_zeros n) sr (audio_sample_rate st1) else np_zeros n) t a r
         = np_zeros (if resample_returns sp st n sr then resampled_length st n sr else n)"
proof (cases "sr = audio_sample_rate st")
  case True
  then have "resample_returns sp st n sr" by (simp add: resample_returns_def)
  moreover have "resampled_length st n sr = n"
    using True assms(2) resampled_length_same_rate[of st n] by simp
  ultimately show ?thesis
    using True assms(3) agc_zeros[OF assms(1)] by simp
next
  case False
  with assms resample_zeros[of sp sr st n] agc_zeros[OF assms(1)] show ?thesis
    by simp
qed

lemma am_silent:
  assumes "zero_preserving sp" "0 < sr"
  shows "fst (am_demodulate sp st (replicate n 0) sr bw)
         = np_zeros (if resample_returns sp st n sr then resampled_length st n sr else n)"
proof -
  have a0: "map (\<lambda>a. a - np_mean (map cmod (replicate n 0))) (map cmod (replicate n 0))
              = np_zeros n"
    by (simp add: np_mean_def np_zeros_def sum_list_replicate)
  obtain audio st1 where f:
    "(case bw of None \<Rightarrow> (np_zeros n, st)
      | Some b \<Rightarrow> if b < sr / 2
                  then apply_audio_filter sp st (np_zeros n) sr b ''lowpass'' None None
                  else (np_zeros n, st)) = (audio, st1)"
    by force
  have au: "audio = np_zeros n" and r1: "audio_sample_rate st1 = audio_sample_rate st"
    using f filter_zeros_pair[OF assms(1), of st n sr _ "''lowpass''" None None audio st1]
    by (auto split: option.splits if_splits)
  have "am_demodulate sp st (replicate n 0) sr bw =
          (apply_agc sp (if sr \<noteq> audio_sample_rate st1
                         then resample_audio sp audio sr (audio_sample_rate st1) else audio)
             0.3 0.01 0.1, st1)"
    unfolding am_demodulate_def Let_def a0 f by simp
  then have "fst (am_demodulate sp st (replicate n 0) sr bw) =
          apply_agc sp (if sr \<noteq> audio_sample_rate st1
                        then resample_audio sp (np_zeros n) sr (audio_sample_rate st1)
                        else np_zeros n) 0.3 0.01 0.1"
    unfolding au by simp
  also have "\<dots> = np_zeros (if resample_returns sp st n sr then resampled_length st n sr else n)"
    by (rule silent_tail[OF assms r1])
  finally show ?thesis .
qed

lemma np_diff_zeros: "np_diff (replicate n 0) = replicate (n - 1) 0"
proof (induction n)
  case 0
  then show ?case by simp
next
  case (Suc n)
  then show ?case by (cases n) auto
qed

lemma zip_zero_left:
  "length ys = n \<Longrightarrow> map2 (\<lambda>z b. z * g b) (replicate n (0::complex)) ys = replicate n 0"
  by (induction ys arbitrary: n) auto

lemma cw_silent:
  assumes "zero_preserving sp" "0 < sr"
  shows "fst (cw_demodulate sp st (replicate n 0) sr tone bw)
         = np_zeros (if resample_returns sp st n sr then resampled_length st n sr else n)"
proof -
  let ?bfo = "map (\<lambda>tk. Complex (cos (2 * pi * tone * tk)) (sin (2 * pi * tone * tk)))
                (map (\<lambda>k. real k / sr) [0..<n])"
  have "map2 (\<lambda>z b. z * cnj b) (replicate n 0) ?bfo = replicate n 0"
    by (rule zip_zero_left) simp
  then have a0: "map Re (map2 (\<lambda>z b. z * cnj b) (replicate n 0) ?bfo) = np_zeros n"
    by (simp add: np_zeros_def)
  obtain audio st1 where f:
    "apply_audio_filter sp st (np_zeros n) sr bw ''bandpass''
       (Some (tone - bw / 2)) (Some (tone + bw / 2)) = (audio, st1)"
    by force
  have au: "audio = np_zeros n" and r1: "audio_sample_rate st1 = audio_sample_rate st"
    using filter_zeros_pair[OF assms(1) f] by auto
  have "cw_demodulate sp st (replicate n 0) sr tone bw =
          (apply_agc sp (if sr \<noteq> audio_sample_rate st1
                         then resample_audio sp audio sr (audio_sample_rate st1) else audio)
             0.5 0.0001 0.1, st1)"
    unfolding cw_demodulate_def Let_def length_replicate a0 f by simp
  then have "fst (cw_demodulate sp st (replicate n 0) sr tone bw) =
          apply_agc sp (if sr \<noteq> audio_sample_rate st1
                        then resample_audio sp (np_zeros n) sr (audio_sample_rate st1)
                        else np_zeros n) 0.5 0.0001 0.1"
    unfolding au by simp
  also have "\<dots> = np_zeros (if resample_returns sp st n sr then resampled_length st n sr else n)"
    by (rule silent_tail[OF assms r1])
  finally show ?thesis .
qed


lemma ssb_silent:
  assumes "zero_preserving sp" "0 < sr" "lower mode = ''usb'' \<or> lower mode = ''lsb''"
  shows "fst (ssb_demodulate sp st (replicate n 0) mode sr bw)
         = np_zeros (if resample_returns sp st n sr then resampled_length st n sr else n)"
proof -
  define b where "b = (case bw of None \<Rightarrow> 2700 | Some x \<Rightarrow> x)"
  have a0: "(if lower mode = ''usb'' then map Re (replicate n 0)
             else map Re (map cnj (replicate n 0))) = np_zeros n"
    by (simp add: np_zeros_def)
  obtain audio st1 where f:
    "apply_audio_filter sp st (np_zeros n) sr b ''bandpass'' (Some 300) (Some b) = (audio, st1)"
    by force
  have au: "audio = np_zeros n" and r1: "audio_sample_rate st1 = audio_sample_rate st"
    using filter_zeros_pair[OF assms(1) f] by auto
  have "ssb_try sp st (replicate n 0) mode sr bw =
          Inr (apply_agc sp (if sr \<noteq> audio_sample_rate st1
                         then resample_audio sp audio sr (audio_sample_rate st1) else audio)
             0.4 0.001 0.1, st1)"
    using assms(3) unfolding ssb_try_def Let_def a0 b_def[symmetric] f by auto
  then have "fst (ssb_demodulate sp st (replicate n 0) mode sr bw) =
          apply_agc sp (if sr \<noteq> audio_sample_rate st1
                        then resample_audio sp (np_zeros n) sr (audio_sample_rate st1)
                        else np_zeros n) 0.4 0.001 0.1"
    unfolding au ssb_demodulate_def by simp
  also have "\<dots> = np_zeros (if resample_returns sp st n sr then resampled_length st n sr else n)"
    by (rule silent_tail[OF assms(1,2) r1])
  finally show ?thesis .
qed

lemma fm_front:
  assumes "n \<noteq> 0"
  shows "np_cmean (replicate n 0) = 0"
    and "np_diff_prepend0 (replicate n 0) = Inr (replicate n 0)"
proof -
  show "np_cmean (replicate n 0) = 0" by (simp add: np_cmean_def sum_list_replicate)
  from assms obtain k where k: "n = Suc k" by (cases n) auto
  have "np_diff (0 # replicate (Suc k) 0) = replicate (Suc k) 0"
    using np_diff_zeros[of "Suc (Suc k)"] by simp
  then show "np_diff_prepend0 (replicate n 0) = Inr (replicate n 0)"
    by (simp add: np_diff_prepend0_def k)
qed

lemma fm_silent:
  assumes "zero_preserving sp" "0 < sr"
  shows "fst (fm_demodulate sp st (replicate n 0) sr bw dev)
         = np_zeros (if resample_returns sp st n sr then resampled_length st n sr else n)"
proof (cases "n = 0")
  case True
  then show ?thesis
    by (simp add: fm_demodulate_def fm_try_def np_diff_prepend0_def np_zeros_def
        resampled_length_def py_int_def)
next
  case False
  have front: "map2 (-) (map2 (*) (replicate n (0::real)) (replicate n 0))
                 (map2 (*) (replicate n 0) (replicate n 0)) = replicate n 0"
    by (simp add: zip_replicate)
  have "\<exists>st3. audio_sample_rate st3 = audio_sample_rate st \<and>
          fm_try sp st (replicate n 0) sr bw dev =
          Inr (apply_agc sp (if sr \<noteq> audio_sample_rate st3
                         then resample_audio sp (np_zeros n) sr (audio_sample_rate st3)
                         else np_zeros n) 0.4 0.001 0.1, st3)"
  proof (cases bw)
    case None
    show ?thesis
      using fm_front[OF False] front
      by (intro exI[of _ st])
         (simp add: fm_try_def Let_def zip_replicate None np_zeros_def
            deemphasis_zeros[OF assms(1), unfolded np_zeros_def])
  next
    case (Some b)
    obtain a1 st1 where f1:
      "apply_audio_filter sp st (np_zeros n) sr (min (b * 2) (sr * 0.4))
                    ''lowpass'' None None = (a1, st1)"
      by force
    have a1: "a1 = np_zeros n" and r1: "audio_sample_rate st1 = audio_sample_rate st"
      using filter_zeros_pair[OF assms(1) f1] by auto
    obtain a3 st3 where f3:
      "apply_audio_filter sp st1 (np_zeros n) sr b ''lowpass'' None None = (a3, st3)"
      by force
    have a3: "a3 = np_zeros n" and r3: "audio_sample_rate st3 = audio_sample_rate st"
      using filter_zeros_pair[OF assms(1) f3] r1 by auto
    show ?thesis
      using fm_front[OF False] front f1 f3 a1 a3 r3
      by (intro exI[of _ st3])
         (simp add: fm_try_def Let_def zip_replicate Some np_zeros_def
            deemphasis_zeros[OF assms(1), unfolded np_zeros_def])
  qed
  then obtain st3 where r3: "audio_sample_rate st3 = audio_sample_rate st"
    and "fm_try sp st (replicate n 0) sr bw dev =
          Inr (apply_agc sp (if sr \<noteq> audio_sample_rate st3
                         then resample_audio sp (np_zeros n) sr (audio_sample_rate st3)
                         else np_zeros n) 0.4 0.001 0.1, st3)"
    by blast
  then have "fst (fm_demodulate sp st (replicate n 0) sr bw dev) =
          apply_agc sp (if sr \<noteq> audio_sample_rate st3
                        then resample_audio sp (np_zeros n) sr (audio_sample_rate st3)
                        else np_zeros n) 0.4 0.001 0.1"
    unfolding fm_demodulate_def by simp
  also have "\<dots> = np_zeros (if resample_returns sp st n sr then resampled_length st n sr else n)"
    by (rule silent_tail[OF assms(1,2) r3])
  finally show ?thesis .
qed

text \<open>
  C7, as the code has it. A demodulator call returns audio and raises nothing: a failure
  inside a helper is absorbed there, and a \<open>try\<close> block that raises (FM on an empty chunk, SSB
  with an unknown mode) gives all-zero audio of the input length. For an all-zero chunk and a
  positive sample rate the audio is all zero; it has the expected resampled length
  \<open>int(n * audio_rate / rate)\<close> when the rates are equal or the \<open>resample\<close> call
  returns, and the input length \<open>n\<close> when that call raises, since \<open>_resample_audio\<close> then
  returns its input.
\<close>

theorem demodulator_silence:
  assumes "zero_preserving sp" and "0 < rate"
  shows
   "fst (am_demodulate sp st (replicate n 0) rate bw)
      = np_zeros (if resample_returns sp st n rate
                  then resampled_length st n rate else n)
    \<and> fst (fm_demodulate sp st (replicate n 0) rate bw dev)
      = np_zeros (if resample_returns sp st n rate
                  then resampled_length st n rate else n)
    \<and> (lower mode = ''usb'' \<or> lower mode = ''lsb'' \<longrightarrow>
        fst (ssb_demodulate sp st (replicate n 0) mode rate bw)
          = np_zeros (if resample_returns sp st n rate
                      then resampled_length st n rate else n))
    \<and> fst (cw_demodulate sp st (replicate n 0) rate tone cbw)
      = np_zeros (if resample_returns sp st n rate
                  then resampled_length st n rate else n)
    \<and> (isl (fm_try sp st iq rate bw dev) \<longrightarrow>
        fm_demodulate sp st iq rate bw dev = (np_zeros (length iq), st))
    \<and> (isl (ssb_try sp st iq mode rate bw) \<longrightarrow>
        ssb_demodulate sp st iq mode rate bw = (np_zeros (length iq), st))
    \<and> (lower mode \<noteq> ''usb'' \<and> lower mode \<noteq> ''lsb'' \<longrightarrow>
        ssb_demodulate sp st iq mode rate bw = (np_zeros (length iq), st))
    \<and> fm_demodulate sp st [] rate bw dev = ([], st)"
proof -
  have "isl (fm_try sp st iq rate bw dev) \<longrightarrow>
        fm_demodulate sp st iq rate bw dev = (np_zeros (length iq), st)"
    by (auto simp: fm_demodulate_def split: sum.splits)
  moreover have "isl (ssb_try sp st iq mode rate bw) \<longrightarrow>
        ssb_demodulate sp st iq mode rate bw = (np_zeros (length iq), st)"
    by (auto simp: ssb_demodulate_def split: sum.splits)
  moreover have "lower mode \<noteq> ''usb'' \<and> lower mode \<noteq> ''lsb'' \<longrightarrow>
        ssb_demodulate sp st iq mode rate bw = (np_zeros (length iq), st)"
    by (simp add: ssb_demodulate_def ssb_try_def)
  moreover have "fm_demodulate sp st [] rate bw dev = ([], st)"
    by (simp add: fm_demodulate_def fm_try_def np_diff_prepend0_def np_zeros_def)
  ultimately show ?thesis
    using am_silent[OF assms, of st n bw] fm_silent[OF assms, of st n bw dev]
      ssb_silent[OF assms, of mode st n bw] cw_silent[OF assms, of st n tone cbw]
    by blast
qed

theorem demodulator_silence_witness:
  "zero_preserving scipy_raising \<and> (0::real) < 48000
   \<and> lower ''USB'' = ''usb''
   \<and> fst (am_demodulate scipy_raising (AudioDemodulators_init 48000) (replicate 3 0) 48000 None)
       = [0, 0, 0]
   \<and> fst (ssb_demodulate scipy_raising (AudioDemodulators_init 48000) (replicate 3 0) ''USB''
            48000 None) = [0, 0, 0]
   \<and> isl (ssb_try scipy_raising (AudioDemodulators_init 48000) [1] ''am'' 48000 None)
   \<and> ssb_demodulate scipy_raising (AudioDemodulators_init 48000) [1] ''am'' 48000 None
       = ([0], AudioDemodulators_init 48000)"
proof -
  have zp: "zero_preserving scipy_raising"
    by (simp add: zero_preserving_def scipy_raising_def)
  have pos: "(0::real) < 48000" by simp
  have rr: "resample_returns scipy_raising (AudioDemodulators_init 48000) 3 48000"
    by (simp add: resample_returns_def AudioDemodulators_init_def)
  have rl: "resampled_length (AudioDemodulators_init 48000) 3 48000 = 3"
    by (simp add: resampled_length_def AudioDemodulators_init_def py_int_def)
  have lo: "lower ''USB'' = ''usb''" "lower ''am'' = ''am''"
    by (simp_all add: lower_def lower_char_def)
  have bad: "isl (ssb_try scipy_raising (AudioDemodulators_init 48000) [1] ''am'' 48000 None)"
    by (simp add: ssb_try_def lo)
  show ?thesis
    using demodulator_silence[OF zp pos, of "AudioDemodulators_init 48000" 3 None 75000
        "''USB''" 600 500 "[1]"]
      demodulator_silence[OF zp pos, of "AudioDemodulators_init 48000" 3 None 75000
        "''am''" 600 500 "[1]"]
      zp rr rl lo bad
    by (simp add: np_zeros_def numeral_3_eq_3)
qed

text \<open>
  The claim's length fails where resampling fails: one zero sample at 96 kHz with 48 kHz audio
  has expected length \<open>int(1 * 0.5) = 0\<close>; \<open>resample(audio, 0)\<close> raises and the demodulator
  returns the one un-resampled zero.
\<close>

theorem demodulator_silence_counterexample:
  "fst (am_demodulate scipy_raising (AudioDemodulators_init 48000) [0] 96000 None) = [0]
   \<and> resampled_length (AudioDemodulators_init 48000) (length [0 :: complex]) 96000 = 0"
  by (simp add: am_demodulate_def AudioDemodulators_init_def apply_agc_def agc_try_def
        scipy_raising_def np_mean_def py_int_def Let_def resample_audio_def py_truediv_def
        np_clip_def resampled_length_def)


section \<open>SSB demodulation against its specification\<close>

lemma cache_consistent_init: "cache_consistent sp (AudioDemodulators_init r)"
  by (simp add: cache_consistent_def AudioDemodulators_init_def)

lemma apply_audio_filter_designed:
  assumes "cache_consistent sp st"
  shows "fst (apply_audio_filter sp st audio sr bw ft lo hi) =
           (case filter_design ft sr bw lo hi of
              Inr (Some call) \<Rightarrow> butterworth sp call audio
            | _ \<Rightarrow> audio)"
proof (cases "audio_filter_cache st (ft, sr, bw, lo, hi)")
  case None
  then show ?thesis
    by (auto simp: apply_audio_filter_def butterworth_def Let_def
        split: sum.splits option.splits butter_call.splits)
next
  case (Some sos)
  with assms obtain n wn bt where
    d: "filter_design ft sr bw lo hi = Inr (Some (Butter n wn bt))"
    and b: "butter_sos sp n wn bt = Inr sos"
    unfolding cache_consistent_def by blast
  with Some show ?thesis
    by (auto simp: apply_audio_filter_def butterworth_def Let_def split: sum.splits)
qed

lemma apply_audio_filter_consistent:
  assumes "cache_consistent sp st"
  shows "cache_consistent sp (snd (apply_audio_filter sp st audio sr bw ft lo hi))"
  using assms
  by (auto simp: apply_audio_filter_def cache_consistent_def Let_def
      split: sum.splits option.splits butter_call.splits)

lemma ssb_band_design:
  assumes "0 < sr"
  shows "filter_design ''bandpass'' sr b (Some 300) (Some b) =
           Inr (Some (if min b (sr / 2 * 0.95) > 300
                      then Butter 4 [300 / (sr / 2), min b (sr / 2 * 0.95) / (sr / 2)] ''bandpass''
                      else Butter 6 [min b (sr / 2 * 0.95) / (sr / 2)] ''lowpass''))"
proof -
  have p: "py_or (Some b) b = b" "py_or (Some 300) 300 = 300"
    by (simp_all add: py_or_def)
  have "(min b (sr / 2 * 0.95) / (sr / 2) > 300 / (sr / 2)) = (min b (sr / 2 * 0.95) > 300)"
    using assms by (simp add: divide_less_cancel)
  then show ?thesis
    using assms by (simp add: filter_design_def Let_def p py_truediv_def)
qed


lemma ssb_try_valid:
  assumes "cache_consistent sp st" "0 < sr" "lower mode = ''usb'' \<or> lower mode = ''lsb''"
  shows "\<exists>st1. ssb_try sp st iq mode sr bw =
           Inr (ssb_after_filter sp st sr
                  (butterworth sp
                     (if 300 < min (case bw of None \<Rightarrow> 2700 | Some b \<Rightarrow> b) (sr / 2 * 0.95)
                      then Butter 4 [300 / (sr / 2),
                             min (case bw of None \<Rightarrow> 2700 | Some b \<Rightarrow> b) (sr / 2 * 0.95) / (sr / 2)]
                             ''bandpass''
                      else Butter 6
                             [min (case bw of None \<Rightarrow> 2700 | Some b \<Rightarrow> b) (sr / 2 * 0.95) / (sr / 2)]
                             ''lowpass'')
                     (if lower mode = ''usb'' then map Re iq else map (\<lambda>z. Re (cnj z)) iq)),
                st1)"
proof -
  define b where "b = (case bw of None \<Rightarrow> 2700 | Some b \<Rightarrow> b)"
  define ex where "ex = (if lower mode = ''usb'' then map Re iq else map Re (map cnj iq))"
  obtain a1 st1 where f: "apply_audio_filter sp st ex sr b ''bandpass'' (Some 300) (Some b) = (a1, st1)"
    by force
  have a1: "a1 = butterworth sp
                     (if 300 < min b (sr / 2 * 0.95)
                      then Butter 4 [300 / (sr / 2), min b (sr / 2 * 0.95) / (sr / 2)] ''bandpass''
                      else Butter 6 [min b (sr / 2 * 0.95) / (sr / 2)] ''lowpass'') ex"
    using apply_audio_filter_designed[OF assms(1), of ex sr b "''bandpass''" "Some 300" "Some b"]
      f ssb_band_design[OF assms(2), of b]
    by simp
  have r1: "audio_sample_rate st1 = audio_sample_rate st"
    using filter_keeps_rate[of sp st ex sr b "''bandpass''" "Some 300" "Some b"] f by simp
  have ex': "ex = (if lower mode = ''usb'' then map Re iq else map (\<lambda>z. Re (cnj z)) iq)"
    by (simp add: ex_def)
  have "ssb_try sp st iq mode sr bw =
          Inr (apply_agc sp (if sr \<noteq> audio_sample_rate st1
                             then resample_audio sp a1 sr (audio_sample_rate st1) else a1)
                 0.4 0.001 0.1, st1)"
    using assms(3) unfolding ssb_try_def Let_def b_def[symmetric] ex_def[symmetric] f by auto
  then show ?thesis
    unfolding ssb_after_filter_def r1 a1 ex' b_def by blast
qed

text \<open>
  C9, as the code has it. With a consistent filter cache and a positive sample rate: the mode
  is compared after lower-casing; \<open>usb\<close> takes the real part of the samples and \<open>lsb\<close> the real
  part of their conjugates; the bandwidth is 2700 Hz when none is given; the signal is then
  filtered by a 4th-order bandpass from 300 Hz to \<open>min(bandwidth, 0.95 * Nyquist)\<close> when that
  upper edge is above 300 Hz, and by a 6th-order lowpass at that edge otherwise (unfiltered
  when the design or the filter run raises), then resampled and passed through AGC. For
  \<open>300 < bandwidth <= 0.95 * Nyquist\<close> this is the specified bandpass from 300 Hz to the
  bandwidth. Any other mode gives all-zero audio of the input length.
\<close>

theorem ssb_demodulate_pipeline:
  assumes "cache_consistent sp st" and "0 < rate"
  shows
   "(lower mode = ''usb'' \<or> lower mode = ''lsb'' \<longrightarrow>
       fst (ssb_demodulate sp st iq mode rate bandwidth) =
         ssb_after_filter sp st rate
           (butterworth sp
              (if 300 < min (case bandwidth of None \<Rightarrow> 2700 | Some b \<Rightarrow> b) (rate / 2 * 0.95)
               then Butter 4
                      [300 / (rate / 2),
                       min (case bandwidth of None \<Rightarrow> 2700 | Some b \<Rightarrow> b) (rate / 2 * 0.95)
                         / (rate / 2)] ''bandpass''
               else Butter 6
                      [min (case bandwidth of None \<Rightarrow> 2700 | Some b \<Rightarrow> b) (rate / 2 * 0.95)
                         / (rate / 2)] ''lowpass'')
              (if lower mode = ''usb'' then map Re iq else map (\<lambda>z. Re (cnj z)) iq)))
    \<and> ((lower mode = ''usb'' \<or> lower mode = ''lsb'')
        \<and> 300 < (case bandwidth of None \<Rightarrow> 2700 | Some b \<Rightarrow> b)
        \<and> (case bandwidth of None \<Rightarrow> 2700 | Some b \<Rightarrow> b) \<le> rate / 2 * 0.95 \<longrightarrow>
        Some (fst (ssb_demodulate sp st iq mode rate bandwidth))
          = ssb_spec sp st iq (lower mode) rate bandwidth)
    \<and> (lower mode \<noteq> ''usb'' \<and> lower mode \<noteq> ''lsb'' \<longrightarrow>
        ssb_demodulate sp st iq mode rate bandwidth = (np_zeros (length iq), st)
        \<and> ssb_spec sp st iq (lower mode) rate bandwidth = None)"
proof (intro conjI impI)
  assume m: "lower mode = ''usb'' \<or> lower mode = ''lsb''"
  from ssb_try_valid[OF assms m, of iq bandwidth]
  show "fst (ssb_demodulate sp st iq mode rate bandwidth) =
         ssb_after_filter sp st rate
           (butterworth sp
              (if 300 < min (case bandwidth of None \<Rightarrow> 2700 | Some b \<Rightarrow> b) (rate / 2 * 0.95)
               then Butter 4
                      [300 / (rate / 2),
                       min (case bandwidth of None \<Rightarrow> 2700 | Some b \<Rightarrow> b) (rate / 2 * 0.95)
                         / (rate / 2)] ''bandpass''
               else Butter 6
                      [min (case bandwidth of None \<Rightarrow> 2700 | Some b \<Rightarrow> b) (rate / 2 * 0.95)
                         / (rate / 2)] ''lowpass'')
              (if lower mode = ''usb'' then map Re iq else map (\<lambda>z. Re (cnj z)) iq))"
    by (auto simp: ssb_demodulate_def)
next
  assume h: "(lower mode = ''usb'' \<or> lower mode = ''lsb'')
        \<and> 300 < (case bandwidth of None \<Rightarrow> 2700 | Some b \<Rightarrow> b)
        \<and> (case bandwidth of None \<Rightarrow> 2700 | Some b \<Rightarrow> b) \<le> rate / 2 * 0.95"
  then have m: "lower mode = ''usb'' \<or> lower mode = ''lsb''" by blast
  from h have mn: "min (case bandwidth of None \<Rightarrow> 2700 | Some b \<Rightarrow> b) (rate / 2 * 0.95)
                    = (case bandwidth of None \<Rightarrow> 2700 | Some b \<Rightarrow> b)"
    by (simp add: min_def)
  from ssb_try_valid[OF assms m, of iq bandwidth] h
  show "Some (fst (ssb_demodulate sp st iq mode rate bandwidth))
          = ssb_spec sp st iq (lower mode) rate bandwidth"
    unfolding mn by (auto simp: ssb_demodulate_def ssb_spec_def Let_def)
next
  assume "lower mode \<noteq> ''usb'' \<and> lower mode \<noteq> ''lsb''"
  then show "ssb_demodulate sp st iq mode rate bandwidth = (np_zeros (length iq), st)"
    by (simp add: ssb_demodulate_def ssb_try_def)
next
  assume "lower mode \<noteq> ''usb'' \<and> lower mode \<noteq> ''lsb''"
  then show "ssb_spec sp st iq (lower mode) rate bandwidth = None"
    by (simp add: ssb_spec_def Let_def)
qed

theorem ssb_demodulate_pipeline_witness:
  "cache_consistent scipy_raising (AudioDemodulators_init 48000) \<and> (0::real) < 48000
   \<and> lower ''USB'' = ''usb'' \<and> (300::real) < 2700 \<and> (2700::real) \<le> 48000 / 2 * 0.95
   \<and> fst (ssb_demodulate scipy_raising (AudioDemodulators_init 48000) [1, 0] ''USB'' 48000 None)
       = [0.4, 0]
   \<and> ssb_spec scipy_raising (AudioDemodulators_init 48000) [1, 0] ''usb'' 48000 None
       = Some [0.4, 0]
   \<and> lower ''am'' = ''am''
   \<and> ssb_demodulate scipy_raising (AudioDemodulators_init 48000) [1, 0] ''am'' 48000 None
       = ([0, 0], AudioDemodulators_init 48000)"
proof -
  have cc: "cache_consistent scipy_raising (AudioDemodulators_init 48000)"
    by (rule cache_consistent_init)
  have pos: "(0::real) < 48000" by simp
  have lo: "lower ''USB'' = ''usb''" "lower ''am'' = ''am''"
    by (simp_all add: lower_def lower_char_def)
  have ev: "fst (ssb_demodulate scipy_raising (AudioDemodulators_init 48000) [1, 0] ''USB''
                   48000 None) = [0.4, 0]"
    by (simp add: ssb_demodulate_def ssb_try_def lo apply_audio_filter_def filter_design_def
        py_truediv_def py_or_def AudioDemodulators_init_def apply_agc_def agc_try_def
        scipy_raising_def py_int_def Let_def)
  have "Some (fst (ssb_demodulate scipy_raising (AudioDemodulators_init 48000) [1, 0] ''USB''
                     48000 None))
          = ssb_spec scipy_raising (AudioDemodulators_init 48000) [1, 0] (lower ''USB'') 48000 None"
    by (rule ssb_demodulate_pipeline[OF cc pos,
          where mode = "''USB''" and iq = "[1, 0]" and bandwidth = None,
          THEN conjunct2, THEN conjunct1, THEN mp]) (simp add: lo)
  then have sp: "ssb_spec scipy_raising (AudioDemodulators_init 48000) [1, 0] ''usb'' 48000 None
                   = Some [0.4, 0]"
    unfolding ev lo by simp
  have rej: "ssb_demodulate scipy_raising (AudioDemodulators_init 48000) [1, 0] ''am'' 48000 None
               = ([0, 0], AudioDemodulators_init 48000)"
    using ssb_demodulate_pipeline[OF cc pos,
          where mode = "''am''" and iq = "[1, 0]" and bandwidth = None,
          THEN conjunct2, THEN conjunct2, THEN mp, THEN conjunct1] lo
    by (simp add: np_zeros_def)
  show ?thesis
    using cc lo ev sp rej by simp
qed

text \<open>
  The claim fails at a bandwidth of 200 Hz (48 kHz sample rate): the filter designed for
  \<open>ssb_demodulate\<close>'s call \<open>_apply_audio_filter(audio, 48000, 200, filter_type='bandpass',
  low_cutoff=300, high_cutoff=200)\<close> is a lowpass at 200 Hz, not a bandpass from 300 Hz. And
  the mode \<open>'USB'\<close>, which is neither \<open>'usb'\<close> nor \<open>'lsb'\<close>, is not rejected.
\<close>

theorem ssb_demodulate_counterexample:
  "filter_design ''bandpass'' 48000 200 (Some 300) (Some 200)
     = Inr (Some (Butter 6 [1 / 120] ''lowpass''))
   \<and> ssb_try scipy_raising (AudioDemodulators_init 48000) [1, 0] ''USB'' 48000 (Some 200)
     = Inr ([0.4, 0], AudioDemodulators_init 48000)"
  by (simp add: ssb_try_def lower_def lower_char_def apply_audio_filter_def filter_design_def
        py_truediv_def py_or_def AudioDemodulators_init_def apply_agc_def agc_try_def
        scipy_raising_def py_int_def Let_def)


section \<open>Spectrum processor: frequency axis, frames and invariants\<close>

lemma fftshift_length [simp]: "length (fftshift xs) = length xs"
  by (auto simp: fftshift_def Let_def)

lemma fftfreq_ints:
  assumes "1 \<le> n"
  shows "fftshift ([0..(n - 1) div 2] @ [- (n div 2)..- 1]) = [- (n div 2)..(n - 1) div 2]"
proof -
  let ?a = "[0..(n - 1) div 2]" and ?b = "[- (n div 2)..- 1]"
  have la: "length ?a = nat ((n - 1) div 2 + 1)" using assms by simp
  have lb: "length ?b = nat (n div 2)" using assms by simp
  have tot: "length (?a @ ?b) = nat n" using assms by (simp add: la lb)
  have sh: "length (?a @ ?b) - length (?a @ ?b) div 2 = length ?a"
  proof -
    have "nat n div 2 = nat (n div 2)" using assms by (simp add: nat_div_distrib)
    then show ?thesis unfolding tot la using assms by linarith
  qed
  have "fftshift (?a @ ?b) = ?b @ ?a"
    unfolding fftshift_def Let_def sh by simp
  also have "\<dots> = [- (n div 2)..(n - 1) div 2]"
  proof (cases "1 \<le> n div 2")
    case True
    have "- 1 \<le> (n - 1) div 2" using assms by linarith
    with True upto_split2[of "- (n div 2)" "- 1" "(n - 1) div 2"] show ?thesis by simp
  next
    case False
    with assms have "n div 2 = 0" by linarith
    then show ?thesis by simp
  qed
  finally show ?thesis .
qed

lemma frequency_array_value:
  assumes "1 \<le> n" "0 < rate"
  shows "frequency_array n rate c =
           Inr (map (\<lambda>k. real_of_int k * (rate / real_of_int n) + c) [- (n div 2)..(n - 1) div 2])"
proof -
  have v: "1 / (real_of_int n * (1 / rate)) = rate / real_of_int n"
    using assms by simp
  have nz: "real_of_int n * (1 / rate) \<noteq> 0" using assms by simp
  define val where "val = rate / real_of_int n"
  define L where "L = [0..(n - 1) div 2] @ [- (n div 2)..- 1]"
  have ff: "np_fftfreq n (1 / rate) = Inr (map (\<lambda>k. real_of_int k * val) L)"
    using assms nz v by (simp add: np_fftfreq_def py_truediv_def val_def L_def)
  have sh: "fftshift (map f xs) = map f (fftshift xs)" for f :: "int \<Rightarrow> real" and xs
    by (simp add: fftshift_def Let_def drop_map take_map)
  have "frequency_array n rate c =
          Inr (map (\<lambda>f. f + c) (fftshift (map (\<lambda>k. real_of_int k * val) L)))"
    using assms(2) ff by (simp add: frequency_array_def py_truediv_def)
  also have "fftshift (map (\<lambda>k. real_of_int k * val) L)
               = map (\<lambda>k. real_of_int k * val) [- (n div 2)..(n - 1) div 2]"
    unfolding sh L_def fftfreq_ints[OF assms(1)] ..
  finally show ?thesis by (simp add: val_def o_def)
qed

lemma frequency_array_props:
  assumes "1 \<le> n" "0 < rate" "frequency_array n rate c = Inr fs"
  shows "length fs = nat n"
    and "\<forall>i<nat n. fs ! i = c + (real i - real (nat n div 2)) * (rate / real_of_int n)"
    and "sorted_wrt (<) fs"
proof -
  let ?f = "\<lambda>k. real_of_int k * (rate / real_of_int n) + c"
  have fs: "fs = map ?f [- (n div 2)..(n - 1) div 2]"
    using frequency_array_value[OF assms(1,2), of c] assms(3) by simp
  have len: "length [- (n div 2)..(n - 1) div 2] = nat n"
    using assms(1) by simp
  show "length fs = nat n" using fs len by simp
  have "int (nat n div 2) = n div 2"
    using assms(1) by (simp add: zdiv_int)
  then have d: "real (nat n div 2) = real_of_int (n div 2)"
    by (metis of_int_of_nat_eq)
  show "\<forall>i<nat n. fs ! i = c + (real i - real (nat n div 2)) * (rate / real_of_int n)"
  proof (intro allI impI)
    fix i assume i: "i < nat n"
    then have "- (n div 2) + int i \<le> (n - 1) div 2" using assms(1) by linarith
    then have "[- (n div 2)..(n - 1) div 2] ! i = - (n div 2) + int i"
      by (rule nth_upto)
    then have "fs ! i = ?f (- (n div 2) + int i)"
      using fs i len by simp
    then show "fs ! i = c + (real i - real (nat n div 2)) * (rate / real_of_int n)"
      by (simp add: d algebra_simps)
  qed
  have pos: "0 < rate / real_of_int n" using assms by simp
  have up: "sorted_wrt (<) [- (n div 2)..(n - 1) div 2]" by (rule sorted_wrt_upto)
  have sm: "?f x < ?f y" if "x < y" for x y :: int
  proof -
    have "real_of_int x * (rate / real_of_int n) < real_of_int y * (rate / real_of_int n)"
      using pos that by (intro mult_strict_right_mono) auto
    then show ?thesis by simp
  qed
  have "sorted_wrt (\<lambda>x y. ?f x < ?f y) [- (n div 2)..(n - 1) div 2]"
    by (rule sorted_wrt_mono_rel[OF _ up]) (use sm in blast)
  then show "sorted_wrt (<) fs"
    unfolding fs sorted_wrt_map .
qed

lemma log10_floor: "log 10 (1 / 10 ^ 10) = - 10"
  by (simp only: log_recip log_pow_cancel)

lemma power_to_db_floor: "- 100 \<le> power_to_db p"
proof -
  have "(1::real) / 10 ^ 10 \<le> max p (1 / 10 ^ 10)" by simp
  then have "log 10 (1 / 10 ^ 10) \<le> log 10 (max p (1 / 10 ^ 10))"
    by (subst log_le_cancel_iff) auto
  then show ?thesis unfolding power_to_db_def log10_floor by simp
qed

lemma fftshift_map: "fftshift (map f xs) = map f (fftshift xs)"
  by (simp add: fftshift_def Let_def drop_map take_map)

lemma dft_length [simp]: "length (dft xs) = length xs"
  by (simp add: dft_def)

lemma periodogram_length:
  "length frame = length w \<Longrightarrow> length (periodogram w frame) = length w"
  by (simp add: periodogram_def)

lemma compute_fft_frame:
  assumes "configured s" "length windowed = nat (fft_size s)"
  shows "compute_fft s windowed = Inr (dft windowed)"
proof -
  from assms have "windowed \<noteq> []" by (auto simp: configured_def)
  with assms show ?thesis
    by (auto simp: compute_fft_def np_fft_def np_broadcast_to_def configured_def split: if_splits)
qed

lemma smooth_and_store_fits:
  assumes "configured s" "previous_fits s" "length db = nat (fft_size s)"
    "list_all (\<lambda>p. - 100 \<le> p) db"
  shows "\<exists>db'. smooth_and_store s db
                = Inr ((frequencies s, db'), s\<lparr>previous_spectrum := Some db'\<rparr>)
           \<and> length db' = nat (fft_size s) \<and> list_all (\<lambda>p. - 100 \<le> p) db'
           \<and> db' = (case previous_spectrum s of
                      Some prev \<Rightarrow>
                        if enable_smoothing s
                        then map2 (\<lambda>x y. smoothing_factor s * x + (1 - smoothing_factor s) * y)
                               db prev
                        else db
                    | None \<Rightarrow> db)"
proof (cases "previous_spectrum s")
  case None
  with assms show ?thesis by (simp add: smooth_and_store_def)
next
  case (Some prev)
  with assms(2) have lp: "length prev = nat (fft_size s)"
    and bp: "list_all (\<lambda>p. - 100 \<le> p) prev"
    by (simp_all add: previous_fits_def)
  let ?a = "smoothing_factor s"
  have a: "0 \<le> ?a" "?a \<le> 1" using assms(1) by (simp_all add: configured_def)
  let ?m = "map2 (\<lambda>x y. ?a * x + (1 - ?a) * y) db prev"
  have m: "np_broadcast (+) (map (\<lambda>x. ?a * x) db) (map (\<lambda>x. (1 - ?a) * x) prev) = Inr ?m"
    using lp assms(3) by (auto simp: np_broadcast_def zip_map_map)
  have bm: "list_all (\<lambda>p. - 100 \<le> p) ?m"
  proof -
    have "- 100 \<le> ?a * x + (1 - ?a) * y" if "- 100 \<le> x" "- 100 \<le> y" for x y
    proof -
      have "?a * (- 100) \<le> ?a * x" using that a by (intro mult_left_mono) auto
      moreover have "(1 - ?a) * (- 100) \<le> (1 - ?a) * y"
        using that a by (intro mult_left_mono) auto
      ultimately show ?thesis by (simp add: algebra_simps)
    qed
    then show ?thesis
      using assms(4) bp
      by (auto simp: list_all_iff dest!: set_zip_leftD set_zip_rightD
          elim!: in_set_zipE)
  qed
  show ?thesis
    using Some m bm lp assms(3,4) by (auto simp: smooth_and_store_def)
qed

lemma process_frame_value:
  assumes "configured s" "length samples = nat (fft_size s)"
  shows "process_frame s samples
           = smooth_and_store s (map power_to_db (fftshift (periodogram (window s) samples)))"
proof -
  have lw: "length (window s) = nat (fft_size s)" using assms(1) by (simp add: configured_def)
  let ?w = "map2 (\<lambda>z w. z * complex_of_real w) samples (window s)"
  have b: "np_broadcast (\<lambda>z w. z * complex_of_real w) samples (window s) = Inr ?w"
    using assms(2) lw by (simp add: np_broadcast_def)
  have f: "compute_fft s ?w = Inr (dft ?w)"
    by (rule compute_fft_frame[OF assms(1)]) (simp add: assms(2) lw)
  show ?thesis
    by (simp add: process_frame_def b f Let_def periodogram_def fftshift_map)
qed

lemma py_slice_frame:
  assumes "a + n \<le> length xs"
  shows "py_slice xs (int a) (int a + int n) = take n (drop a xs)"
proof -
  have "py_index (length xs) (int a) = a" using assms by (simp add: py_index_def)
  moreover have "py_index (length xs) (int a + int n) = a + n"
    using assms by (simp add: py_index_def nat_add_distrib)
  ultimately show ?thesis by (simp add: py_slice_def Let_def)
qed

lemma accumulate_frames_value:
  assumes "configured s" "length acc = nat (fft_size s)"
    and "\<forall>i\<in>set ks. i * hop + nat (fft_size s) \<le> length samples"
  shows "accumulate_frames s samples (int hop) ks (acc, c)
         = Inr (foldl (\<lambda>a p. map2 (+) a p) acc
                  (map (\<lambda>i. periodogram (window s) (take (nat (fft_size s)) (drop (i * hop) samples))) ks),
                c + length ks)"
  using assms(2,3)
proof (induction ks arbitrary: acc c)
  case Nil
  then show ?case by simp
next
  case (Cons i ks)
  let ?N = "nat (fft_size s)"
  have N: "1 \<le> fft_size s" and lw: "length (window s) = ?N"
    using assms(1) by (simp_all add: configured_def)
  have fit: "i * hop + ?N \<le> length samples" using Cons.prems(2) by simp
  let ?frame = "take ?N (drop (i * hop) samples)"
  have "?N \<le> length samples - i * hop" using fit by linarith
  then have "min (length samples - i * hop) ?N = ?N" by (rule min_absorb2)
  then have lf: "length ?frame = ?N" by (simp only: length_take length_drop)
  have sl: "py_slice samples (int i * int hop) (int i * int hop + fft_size s) = ?frame"
    using py_slice_frame[OF fit] N by (simp add: nat_add_distrib)
  have "int (i * hop + ?N) \<le> int (length samples)" using fit by (rule iffD2[OF of_nat_le_iff])
  then have nb: "\<not> int i * int hop + fft_size s > int (length samples)"
    using N by simp
  let ?w = "map2 (\<lambda>z w. z * complex_of_real w) ?frame (window s)"
  have b: "np_broadcast (\<lambda>z w. z * complex_of_real w) ?frame (window s) = Inr ?w"
    using lf lw by (simp add: np_broadcast_def)
  have f: "compute_fft s ?w = Inr (dft ?w)"
    by (rule compute_fft_frame[OF assms(1)]) (simp only: length_map length_zip lf lw min.idem)
  have p: "map (\<lambda>z. (cmod z) ^ 2) (dft ?w) = periodogram (window s) ?frame"
    by (simp add: periodogram_def)
  have lp: "length (periodogram (window s) ?frame) = ?N"
    using periodogram_length[of ?frame "window s"] lf lw by simp
  have bt: "np_broadcast_to (length acc) (periodogram (window s) ?frame)
              = Inr (periodogram (window s) ?frame)"
    using lp Cons.prems(1) by (simp add: np_broadcast_to_def)
  have la: "length (map2 (+) acc (periodogram (window s) ?frame)) = ?N"
    using lp Cons.prems(1) by simp
  have rest: "\<forall>i\<in>set ks. i * hop + ?N \<le> length samples" using Cons.prems(2) by simp
  have "accumulate_frames s samples (int hop) (i # ks) (acc, c) =
          accumulate_frames s samples (int hop) ks
            (map2 (+) acc (periodogram (window s) ?frame), c + 1)"
    using nb by (simp add: Let_def sl b f p bt del: periodogram_def)
  also have "\<dots> = Inr (foldl (\<lambda>a p. map2 (+) a p) (map2 (+) acc (periodogram (window s) ?frame))
                  (map (\<lambda>i. periodogram (window s) (take ?N (drop (i * hop) samples))) ks),
                c + 1 + length ks)"
    by (rule Cons.IH[OF la rest])
  finally show ?case by simp
qed

lemma foldl_add_nth:
  assumes "length acc = n" "\<forall>p\<in>set ps. length p = n"
  shows "foldl (\<lambda>a p. map2 (+) a p) acc ps = map (\<lambda>j. acc ! j + (\<Sum>p\<leftarrow>ps. p ! j)) [0..<n]"
  using assms
proof (induction ps arbitrary: acc)
  case Nil
  then show ?case using map_nth[of acc] by simp
next
  case (Cons p ps)
  have l: "length (map2 (+) acc p) = n" using Cons.prems by simp
  have "foldl (\<lambda>a p. map2 (+) a p) (map2 (+) acc p) ps
          = map (\<lambda>j. map2 (+) acc p ! j + (\<Sum>q\<leftarrow>ps. q ! j)) [0..<n]"
    using Cons.IH[OF l] Cons.prems(2) by simp
  also have "\<dots> = map (\<lambda>j. acc ! j + (\<Sum>q\<leftarrow>p # ps. q ! j)) [0..<n]"
    using Cons.prems by (auto simp: add.assoc)
  finally show ?case by simp
qed

lemma frame_indices:
  assumes "1 \<le> hop" "hop \<le> N" "N < len"
  shows "filter (\<lambda>k. k * hop + N \<le> len) [0..<len]
           = [0..<nat ((int len - (int N - int hop)) div int hop)]"
    and "0 < (int len - (int N - int hop)) div int hop"
proof -
  let ?m = "(int len - (int N - int hop)) div int hop"
  have "int len - (int N - int hop) = (int len - int N) + int hop" by simp
  then have m: "?m = (int len - int N) div int hop + 1"
    using assms(1) by (simp only: div_add_self2)
  have m': "?m = int ((len - N) div hop + 1)"
    using assms unfolding m by (simp add: zdiv_int of_nat_diff)
  show "0 < ?m" unfolding m' by simp
  have nat_m: "nat ?m = (len - N) div hop + 1" unfolding m' by simp
  have le: "(len - N) div hop + 1 \<le> len"
  proof -
    have "(len - N) div hop \<le> len - N" by (rule div_le_dividend)
    with assms show ?thesis by linarith
  qed
  have iff: "(k * hop + N \<le> len) = (k < (len - N) div hop + 1)" for k
  proof -
    have "(k * hop + N \<le> len) = (k * hop \<le> len - N)" using assms by linarith
    also have "\<dots> = (k \<le> (len - N) div hop)"
      using assms(1) by (simp add: less_eq_div_iff_mult_less_eq)
    finally show ?thesis by linarith
  qed
  have "filter (\<lambda>k. k < m) [0..<n] = [0..<m]" if "m \<le> n" for m n :: nat
    using that
  proof (induction n)
    case 0
    then show ?case by simp
  next
    case (Suc n)
    then show ?case by (cases "m = Suc n") auto
  qed
  from this[OF le] show "filter (\<lambda>k. k * hop + N \<le> len) [0..<len] = [0..<nat ?m]"
    unfolding nat_m iff .
qed

lemma overlap_samples_range:
  assumes "configured s"
  shows "0 \<le> overlap_samples s" and "overlap_samples s < fft_size s"
proof -
  let ?x = "real_of_int (fft_size s) * overlap s"
  have N: "1 \<le> fft_size s" and o: "0 \<le> overlap s" "overlap s \<le> 0.9"
    and ov: "overlap_samples s = py_int ?x"
    using assms by (simp_all add: configured_def)
  have x0: "0 \<le> ?x" using N o by simp
  then have fl: "overlap_samples s = \<lfloor>?x\<rfloor>" using ov by (simp add: py_int_def)
  show "0 \<le> overlap_samples s" using x0 fl by simp
  have "?x \<le> real_of_int (fft_size s) * 0.9"
    using N o by (intro mult_left_mono) auto
  also have "\<dots> < real_of_int (fft_size s)" using N by simp
  finally have "?x < real_of_int (fft_size s)" .
  then show "overlap_samples s < fft_size s" unfolding fl by (simp add: floor_less_iff)
qed

lemma mean_power_length [simp]: "length (mean_power N ps) = N"
  by (simp add: mean_power_def)

lemma averaged_spectrum_db_length [simp]: "length (averaged_spectrum_db w N hop samples) = N"
  by (simp add: averaged_spectrum_db_def)

lemma process_long_value:
  assumes "configured s" "fft_size s < int (length samples)"
  shows "process_long_sequence s samples =
           smooth_and_store s
             (averaged_spectrum_db (window s) (nat (fft_size s))
                (nat (fft_size s - overlap_samples s)) samples)"
proof -
  define N where "N = nat (fft_size s)"
  define hop where "hop = nat (fft_size s - overlap_samples s)"
  define len where "len = length samples"
  have Npos: "1 \<le> fft_size s" and lw: "length (window s) = N"
    using assms(1) by (simp_all add: configured_def N_def)
  have Nint: "int N = fft_size s" using Npos by (simp add: N_def)
  have hopint: "int hop = fft_size s - overlap_samples s"
    using overlap_samples_range[OF assms(1)] by (simp add: hop_def)
  have h1: "1 \<le> hop" "hop \<le> N"
    using overlap_samples_range[OF assms(1)] Npos by (simp_all add: hop_def N_def)
  have Nlt: "N < len" using assms(2) Npos by (simp add: N_def len_def)
  have ovint: "overlap_samples s = int N - int hop" using Nint hopint by simp
  define m where "m = (int len - (int N - int hop)) div int hop"
  have mpos: "0 < m" unfolding m_def by (rule frame_indices(2)[OF h1 Nlt])
  have idx: "filter (\<lambda>k. k * hop + N \<le> len) [0..<len] = [0..<nat m]"
    unfolding m_def by (rule frame_indices(1)[OF h1 Nlt])
  have fd: "py_floordiv (int (length samples) - overlap_samples s)
              (fft_size s - overlap_samples s) = Inr m"
  proof -
    have a: "fft_size s - overlap_samples s = int hop" using hopint by simp
    have b: "int (length samples) - overlap_samples s = int len - (int N - int hop)"
      using ovint by (simp add: len_def)
    show ?thesis unfolding a b using h1 by (simp add: py_floordiv_def m_def)
  qed
  have z: "np_full (fft_size s) (0::real) = Inr (replicate N 0)"
    using Npos by (simp add: np_full_def N_def)
  define ps where
    "ps = map (\<lambda>i. periodogram (window s) (take N (drop (i * hop) samples))) [0..<nat m]"
  have fits: "\<forall>i\<in>set [0..<nat m]. i * hop + nat (fft_size s) \<le> length samples"
  proof
    fix i assume "i \<in> set [0..<nat m]"
    then have "i \<in> set (filter (\<lambda>k. k * hop + N \<le> len) [0..<len])" by (simp only: idx)
    then show "i * hop + nat (fft_size s) \<le> length samples"
      by (simp add: N_def len_def)
  qed
  have acc: "accumulate_frames s samples (fft_size s - overlap_samples s) [0..<nat m]
               (replicate N 0, 0)
             = Inr (foldl (\<lambda>a p. map2 (+) a p) (replicate N 0) ps, nat m)"
    using accumulate_frames_value[OF assms(1) _ fits, of "replicate N 0" 0]
    by (simp add: hopint[symmetric] N_def ps_def)
  have lps: "\<forall>p\<in>set ps. length p = N"
  proof
    fix p assume "p \<in> set ps"
    then obtain i where i: "i < nat m"
      and p: "p = periodogram (window s) (take N (drop (i * hop) samples))"
      by (auto simp: ps_def)
    from i fits have "i * hop + N \<le> length samples" by (simp add: N_def)
    then have "N \<le> length samples - i * hop" by linarith
    then have "min (length samples - i * hop) N = N" by (rule min_absorb2)
    then have "length (take N (drop (i * hop) samples)) = length (window s)"
      by (simp only: length_take length_drop lw)
    then show "length p = N" unfolding p using periodogram_length lw by metis
  qed
  have sum: "foldl (\<lambda>a p. map2 (+) a p) (replicate N 0) ps
               = map (\<lambda>j. (\<Sum>p\<leftarrow>ps. p ! j)) [0..<N]"
    using foldl_add_nth[of "replicate N 0" N ps] lps by simp
  have lenps: "length ps = nat m" by (simp add: ps_def)
  have mean: "map (\<lambda>p. p / real (nat m))
                (foldl (\<lambda>a p. map2 (+) a p) (replicate N 0) ps) = mean_power N ps"
    unfolding sum by (simp add: mean_power_def lenps o_def)
  have "real (nat m) = real_of_int m" using mpos by simp
  then have mean': "map (\<lambda>p. p / real_of_int m)
                (foldl (\<lambda>a p. map2 (+) a p) (replicate N 0) ps) = mean_power N ps"
    using mean by simp
  have frames: "map (periodogram (window s)) (overlapping_frames N hop samples) = ps"
    unfolding overlapping_frames_def idx[unfolded len_def] ps_def by (simp add: o_def)
  have "process_long_sequence s samples =
          smooth_and_store s (map power_to_db (fftshift (mean_power N ps)))"
    using mpos by (simp add: process_long_sequence_def Let_def fd z acc mean')
  then show ?thesis
    by (simp add: averaged_spectrum_db_def frames N_def[symmetric] hop_def[symmetric])
qed

lemma raw_spectrum_db_length:
  assumes "length w = N"
  shows "length (raw_spectrum_db w N hop samples) = N"
  using assms by (simp add: raw_spectrum_db_def periodogram_def)

lemma raw_spectrum_db_floor: "list_all (\<lambda>p. - 100 \<le> p) (raw_spectrum_db w N hop samples)"
  by (simp add: raw_spectrum_db_def averaged_spectrum_db_def list_all_iff power_to_db_floor)

lemma process_samples_value:
  assumes "configured s"
  shows "process_samples s samples
           = deliver s (raw_spectrum_db (window s) (nat (fft_size s)) (hop_size s) samples)"
proof -
  have N: "1 \<le> fft_size s" using assms by (simp add: configured_def)
  consider (short) "int (length samples) < fft_size s"
    | (long) "fft_size s < int (length samples)"
    | (exact) "int (length samples) = fft_size s"
    by linarith
  then show ?thesis
  proof cases
    case short
    then have l: "length (samples @ replicate (nat (fft_size s) - length samples) 0)
                    = nat (fft_size s)"
      by simp
    from short have nl: "\<not> nat (fft_size s) < length samples" by linarith
    show ?thesis
      using short nl process_frame_value[OF assms l]
      by (simp add: process_samples_def deliver_def raw_spectrum_db_def)
  next
    case long
    then have nl: "nat (fft_size s) < length samples" using N by linarith
    show ?thesis
      using long nl process_long_value[OF assms long]
      by (simp add: process_samples_def deliver_def raw_spectrum_db_def hop_size_def)
  next
    case exact
    then have l: "length samples = nat (fft_size s)" by simp
    show ?thesis
      using exact l process_frame_value[OF assms l]
      by (simp add: process_samples_def deliver_def raw_spectrum_db_def)
  qed
qed

lemma process_samples_fits:
  assumes "configured s" "previous_fits s"
  shows "\<exists>db. process_samples s samples
                = ((frequencies s, db), s\<lparr>previous_spectrum := Some db\<rparr>)
           \<and> length db = nat (fft_size s) \<and> list_all (\<lambda>p. - 100 \<le> p) db
           \<and> db = (case previous_spectrum s of
                     Some prev \<Rightarrow>
                       if enable_smoothing s
                       then map2 (\<lambda>x y. smoothing_factor s * x + (1 - smoothing_factor s) * y)
                              (raw_spectrum_db (window s) (nat (fft_size s)) (hop_size s) samples)
                              prev
                       else raw_spectrum_db (window s) (nat (fft_size s)) (hop_size s) samples
                   | None \<Rightarrow> raw_spectrum_db (window s) (nat (fft_size s)) (hop_size s) samples)"
proof -
  let ?raw = "raw_spectrum_db (window s) (nat (fft_size s)) (hop_size s) samples"
  have lw: "length (window s) = nat (fft_size s)" using assms(1) by (simp add: configured_def)
  have l: "length ?raw = nat (fft_size s)" by (rule raw_spectrum_db_length[OF lw])
  from smooth_and_store_fits[OF assms l raw_spectrum_db_floor]
  show ?thesis
    unfolding process_samples_value[OF assms(1)] deliver_def by auto
qed

lemma process_samples_keeps:
  assumes "configured s" "previous_fits s"
  shows "configured (snd (process_samples s samples))"
    and "previous_fits (snd (process_samples s samples))"
proof -
  from process_samples_fits[OF assms, of samples] obtain db where
    r: "process_samples s samples = ((frequencies s, db), s\<lparr>previous_spectrum := Some db\<rparr>)"
    and l: "length db = nat (fft_size s)" and f: "list_all (\<lambda>p. - 100 \<le> p) db"
    by blast
  show "configured (snd (process_samples s samples))"
    using assms(1) by (simp add: r configured_def)
  show "previous_fits (snd (process_samples s samples))"
    using l f by (simp add: r previous_fits_def)
qed

lemma cosine_window_length: "1 \<le> M \<Longrightarrow> length (cosine_window f M) = nat M"
  by (simp add: cosine_window_def)

lemma create_window_ok:
  assumes "1 \<le> n"
  shows "\<exists>w. create_window wt n = Inr w \<and> length w = nat n"
  using assms
  by (auto simp: create_window_def np_hanning_def np_hamming_def np_blackman_def np_kaiser_def
      np_full_def cosine_window_length Let_def)

lemma overlap_buffer_ok:
  assumes "1 \<le> n" "0 \<le> ov"
  shows "np_full (py_int (real_of_int n * ov)) (0::complex)
           = Inr (replicate (nat (py_int (real_of_int n * ov))) 0)"
proof -
  have "0 \<le> real_of_int n * ov" using assms by simp
  then have "0 \<le> py_int (real_of_int n * ov)" by (simp add: py_int_def)
  then show ?thesis by (simp add: np_full_def)
qed

lemma frequency_array_ok:
  assumes "1 \<le> n" "0 < r"
  shows "\<exists>fs. frequency_array n r c = Inr fs"
  using frequency_array_value[OF assms] by blast

lemma init_configured:
  assumes "1 \<le> n" "0 < r" "0 \<le> ov" "ov \<le> 0.9"
  shows "\<exists>s. SpectrumProcessor_init n r ov wt av = Inr s \<and> configured s
             \<and> previous_spectrum s = None \<and> enable_smoothing s \<and> smoothing_factor s = 0.3
             \<and> fft_size s = n \<and> sample_rate s = r \<and> center_frequency s = 100000000
             \<and> overlap s = ov \<and> window_type s = wt \<and> use_fftw s = av"
proof -
  from create_window_ok[OF assms(1), of wt] obtain w where
    w: "create_window wt n = Inr w" "length w = nat n" by blast
  from frequency_array_ok[OF assms(1,2), of 100000000] obtain fs where
    fs: "frequency_array n r 100000000 = Inr fs" by blast
  have pl: "(if av then fftw_plan n else Inr n) = Inr n"
    using assms(1) by (simp add: fftw_plan_def)
  show ?thesis
    using assms w fs overlap_buffer_ok[OF assms(1,3)] pl
    by (simp add: SpectrumProcessor_init_def configured_def)
qed

lemma update_fft_size_ok:
  assumes "configured s" "1 \<le> n"
  shows "\<exists>w buf. update_fft_size s n =
           (None, s\<lparr>fft_size := n, window := w,
                     overlap_samples := py_int (real_of_int n * overlap s),
                     overlap_buffer := buf,
                     fftw_size := (if use_fftw s then n else fftw_size s)\<rparr>)
           \<and> length w = nat n"
proof -
  from create_window_ok[OF assms(2), of "window_type s"] obtain w where
    w: "create_window (window_type s) n = Inr w" "length w = nat n" by blast
  have o: "0 \<le> overlap s" using assms(1) by (simp add: configured_def)
  show ?thesis
    using w overlap_buffer_ok[OF assms(2) o] assms(2)
    by (auto simp: update_fft_size_def Let_def fftw_plan_def)
qed

lemma update_config_size:
  assumes "configured s" "1 \<le> n" "n \<noteq> fft_size s"
  shows "\<exists>s'. update_config s None None (Some n) = (None, s') \<and> configured s'
           \<and> fft_size s' = n \<and> previous_spectrum s' = previous_spectrum s
           \<and> enable_smoothing s' = enable_smoothing s
           \<and> sample_rate s' = sample_rate s \<and> center_frequency s' = center_frequency s"
proof -
  from update_fft_size_ok[OF assms(1,2)] obtain w buf where
    u: "update_fft_size s n =
           (None, s\<lparr>fft_size := n, window := w,
                     overlap_samples := py_int (real_of_int n * overlap s),
                     overlap_buffer := buf,
                     fftw_size := (if use_fftw s then n else fftw_size s)\<rparr>)"
    and lw: "length w = nat n" by blast
  have r: "0 < sample_rate s" using assms(1) by (simp add: configured_def)
  from frequency_array_ok[OF assms(2) r, of "center_frequency s"] obtain fs where
    fs: "frequency_array n (sample_rate s) (center_frequency s) = Inr fs" by blast
  show ?thesis
    using assms u lw fs
    by (simp add: update_config_def update_frequency_array_def configured_def)
qed

lemma update_config_rate_center:
  assumes "configured s" "case new_rate of Some r \<Rightarrow> 0 < r | None \<Rightarrow> True"
  shows "\<exists>s'. update_config s new_rate new_center None = (None, s') \<and> configured s'
           \<and> fft_size s' = fft_size s \<and> window s' = window s
           \<and> previous_spectrum s' = previous_spectrum s
           \<and> enable_smoothing s' = enable_smoothing s
           \<and> smoothing_factor s' = smoothing_factor s
           \<and> overlap_samples s' = overlap_samples s
           \<and> sample_rate s' = (case new_rate of Some r \<Rightarrow> r | None \<Rightarrow> sample_rate s)
           \<and> center_frequency s'
               = (case new_center of Some c \<Rightarrow> c | None \<Rightarrow> center_frequency s)"
proof -
  define r where "r = (case new_rate of Some r \<Rightarrow> r | None \<Rightarrow> sample_rate s)"
  define c where "c = (case new_center of Some c \<Rightarrow> c | None \<Rightarrow> center_frequency s)"
  have N: "1 \<le> fft_size s" and r0: "0 < sample_rate s" using assms(1) by (simp_all add: configured_def)
  have rp: "0 < r" using assms(2) r0 by (auto simp: r_def split: option.splits)
  from frequency_array_ok[OF N rp, of c] obtain fs where
    fs: "frequency_array (fft_size s) r c = Inr fs" by blast
  have old: "frequency_array (fft_size s) (sample_rate s) (center_frequency s) = Inr (frequencies s)"
    using assms(1) by (simp add: configured_def)
  show ?thesis
    using assms fs old rp
    by (cases new_rate; cases new_center)
       (auto simp: update_config_def update_frequency_array_def configured_def r_def c_def
          Let_def)
qed

section \<open>Spectrum processor: framing of a chunk\<close>

lemma hop_half:
  assumes "configured s" "overlap s = 1 / 2" "even (fft_size s)"
  shows "hop_size s = nat (fft_size s) div 2"
proof -
  have N: "1 \<le> fft_size s" using assms(1) by (simp add: configured_def)
  from assms(3) obtain k where k: "fft_size s = 2 * k" by (auto elim: evenE)
  have kp: "1 \<le> k" using N k by linarith
  have "real_of_int (fft_size s) * overlap s = real_of_int k"
    by (simp add: assms(2) k)
  then have "overlap_samples s = k"
    using assms(1) kp by (simp add: configured_def py_int_def)
  then have "hop_size s = nat k" by (simp add: hop_size_def k)
  moreover have "nat (fft_size s) div 2 = nat k" using kp by (simp add: k nat_mult_distrib)
  ultimately show ?thesis by simp
qed

lemma overlapping_frames_length:
  "\<forall>f\<in>set (overlapping_frames N hop samples). length f = N"
proof
  fix f assume "f \<in> set (overlapping_frames N hop samples)"
  then obtain k where k: "k * hop + N \<le> length samples"
    and f: "f = take N (drop (k * hop) samples)"
    by (auto simp: overlapping_frames_def)
  from k have "N \<le> length samples - k * hop" by linarith
  then have "min (length samples - k * hop) N = N" by (rule min_absorb2)
  then show "length f = N" unfolding f by (simp only: length_take length_drop)
qed

text \<open>
  C5. With the default overlap of 0.5 and an even FFT size \<open>N\<close>, a chunk longer than \<open>N\<close> is
  cut into all its \<open>N\<close>-sample frames that start at multiples of \<open>N/2\<close>; each frame is
  windowed and transformed, the squared magnitudes are averaged over the frames, and the
  average is converted to dB once. A chunk of exactly \<open>N\<close> samples is one frame, and a
  shorter chunk is zero-padded on the right to \<open>N\<close> samples. In each case the spectrum then
  goes through the smoothing step.
\<close>

theorem long_chunk_averaging:
  assumes "configured s" and "overlap s = 1 / 2" and "even (fft_size s)"
  shows
   "(fft_size s < int (length samples) \<longrightarrow>
       process_samples s samples =
         deliver s (averaged_spectrum_db (window s) (nat (fft_size s))
                      (nat (fft_size s) div 2) samples))
    \<and> (\<forall>f \<in> set (overlapping_frames (nat (fft_size s)) (nat (fft_size s) div 2) samples).
          length f = nat (fft_size s))
    \<and> (int (length samples) = fft_size s \<longrightarrow>
         process_samples s samples =
           deliver s (map power_to_db (fftshift (periodogram (window s) samples))))
    \<and> (int (length samples) < fft_size s \<longrightarrow>
         process_samples s samples =
           deliver s (map power_to_db (fftshift (periodogram (window s)
                        (samples @ replicate (nat (fft_size s) - length samples) 0)))))"
proof -
  have N: "1 \<le> fft_size s" using assms(1) by (simp add: configured_def)
  have v: "process_samples s samples
             = deliver s (raw_spectrum_db (window s) (nat (fft_size s))
                            (nat (fft_size s) div 2) samples)"
    using process_samples_value[OF assms(1), of samples] hop_half[OF assms] by simp
  have a: "fft_size s < int (length samples) \<longrightarrow>
       process_samples s samples =
         deliver s (averaged_spectrum_db (window s) (nat (fft_size s))
                      (nat (fft_size s) div 2) samples)"
  proof
    assume "fft_size s < int (length samples)"
    then have "nat (fft_size s) < length samples" using N by linarith
    then show "process_samples s samples =
         deliver s (averaged_spectrum_db (window s) (nat (fft_size s))
                      (nat (fft_size s) div 2) samples)"
      unfolding v by (simp add: raw_spectrum_db_def)
  qed
  have b: "int (length samples) = fft_size s \<longrightarrow>
         process_samples s samples =
           deliver s (map power_to_db (fftshift (periodogram (window s) samples)))"
  proof
    assume "int (length samples) = fft_size s"
    then have "length samples = nat (fft_size s)" by simp
    then show "process_samples s samples =
           deliver s (map power_to_db (fftshift (periodogram (window s) samples)))"
      unfolding v by (simp add: raw_spectrum_db_def)
  qed
  have c: "int (length samples) < fft_size s \<longrightarrow>
         process_samples s samples =
           deliver s (map power_to_db (fftshift (periodogram (window s)
                        (samples @ replicate (nat (fft_size s) - length samples) 0))))"
  proof
    assume "int (length samples) < fft_size s"
    then have "\<not> nat (fft_size s) < length samples" by linarith
    then show "process_samples s samples =
           deliver s (map power_to_db (fftshift (periodogram (window s)
                        (samples @ replicate (nat (fft_size s) - length samples) 0))))"
      unfolding v by (simp add: raw_spectrum_db_def)
  qed
  show ?thesis
    using a b c overlapping_frames_length by blast
qed

section \<open>Spectrum processor: a concrete processor\<close>

text \<open>
  The processor \<open>SpectrumProcessor(fft_size=4, sample_rate=2.4e6)\<close> with the default Hann
  window, used below to evaluate the statements on concrete chunks.
\<close>

lemma example_processor_facts:
  shows "SpectrumProcessor_init 4 2400000 0.5 ''hann'' False = Inr example_processor"
    and "configured example_processor"
    and "previous_spectrum example_processor = None"
    and "enable_smoothing example_processor"
    and "smoothing_factor example_processor = 0.3"
    and "fft_size example_processor = 4"
    and "overlap example_processor = 1 / 2"
    and "window_type example_processor = ''hann''"
    and "sample_rate example_processor = 2400000"
proof -
  from init_configured[of 4 2400000 "0.5" "''hann''" False] obtain s where
    s: "SpectrumProcessor_init 4 2400000 0.5 ''hann'' False = Inr s" "configured s"
      "previous_spectrum s = None" "enable_smoothing s" "smoothing_factor s = 0.3"
      "fft_size s = 4" "overlap s = 0.5" "window_type s = ''hann''" "sample_rate s = 2400000"
    by auto
  have e: "example_processor = s" unfolding example_processor_def s(1) by simp
  show "SpectrumProcessor_init 4 2400000 0.5 ''hann'' False = Inr example_processor"
    "configured example_processor" "previous_spectrum example_processor = None"
    "enable_smoothing example_processor" "smoothing_factor example_processor = 0.3"
    "fft_size example_processor = 4" "overlap example_processor = 1 / 2"
    "window_type example_processor = ''hann''" "sample_rate example_processor = 2400000"
    using s unfolding e by simp_all
qed

lemma previous_fits_example: "previous_fits example_processor"
  by (simp add: previous_fits_def example_processor_facts)

lemma example_window: "window example_processor = [0, 3 / 4, 3 / 4, 0]"
proof -
  have u: "[0..<nat 4] = [0, 1, 2, 3]" by code_simp
  have "cosine_window f 4 = [f (- pi), f (- (pi / 3)), f (pi / 3), f pi]" for f
    unfolding cosine_window_def u by simp
  then have "np_hanning 4 = [0, 3 / 4, 3 / 4, 0]"
    by (simp add: np_hanning_def cos_60)
  then have "create_window ''hann'' 4 = Inr [0, 3 / 4, 3 / 4, 0]"
    by (simp add: create_window_def)
  moreover have "window s = w"
    if "SpectrumProcessor_init n r ov wt av = Inr s" "create_window wt n = Inr w"
    for n r ov wt av s w
    using that by (auto simp: SpectrumProcessor_init_def split: sum.splits)
  ultimately show ?thesis
    using example_processor_facts(1) by blast
qed

lemma dft_zeros: "dft (replicate n 0) = replicate n 0"
  by (auto simp: dft_def intro!: nth_equalityI)

lemma periodogram_zeros:
  "length w = n \<Longrightarrow> periodogram w (replicate n 0) = replicate n 0"
proof -
  assume "length w = n"
  then have "map2 (\<lambda>z a. z * complex_of_real a) (replicate n 0) w = replicate n 0"
    by (induction w arbitrary: n) auto
  then show ?thesis by (simp add: periodogram_def dft_zeros)
qed

lemma power_to_db_values: "power_to_db 0 = - 100" "power_to_db 1 = 0"
proof -
  have "max (0::real) (1 / 10 ^ 10) = 1 / 10 ^ 10" by simp
  then show "power_to_db 0 = - 100"
    unfolding power_to_db_def by (simp only: log10_floor)
  have "max (1::real) (1 / 10 ^ 10) = 1" by simp
  then show "power_to_db 1 = 0" unfolding power_to_db_def by simp
qed

lemma fftshift_replicate: "fftshift (replicate n x) = replicate n x"
  by (simp add: fftshift_def Let_def replicate_add[symmetric])

lemma periodogram_unit:
  "periodogram [0, 3 / 4, 3 / 4, 0] [0, 4 / 3, 0, 0] = [1, 1, 1, 1]"
  by (simp add: periodogram_def dft_def upt_rec[of 0] upt_rec[of 1] upt_rec[of 2] upt_rec[of 3]
      lessThan_nat_numeral lessThan_Suc eval_nat_numeral norm_mult)

lemma raw_unit_example:
  "raw_spectrum_db [0, 3 / 4, 3 / 4, 0] 4 h [0, 4 / 3, 0, 0] = [0, 0, 0, 0]"
proof -
  have "fftshift [1, 1, 1, 1 :: real] = [1, 1, 1, 1]"
    by (simp add: fftshift_def Let_def)
  then show ?thesis
    by (simp add: raw_spectrum_db_def periodogram_unit power_to_db_values)
qed

lemma raw_zero_example:
  "raw_spectrum_db [0, 3 / 4, 3 / 4, 0] 4 h (replicate 4 0) = replicate 4 (- 100)"
  using periodogram_zeros[of "[0, 3 / 4, 3 / 4, 0]" 4]
  by (simp add: raw_spectrum_db_def fftshift_replicate power_to_db_values)

lemma first_spectrum_example:
  "process_samples example_processor (replicate 4 0)
     = ((frequencies example_processor, replicate 4 (- 100)),
        example_processor\<lparr>previous_spectrum := Some (replicate 4 (- 100))\<rparr>)"
proof -
  have raw: "raw_spectrum_db (window example_processor) (nat (fft_size example_processor))
               (hop_size example_processor) (replicate 4 0) = replicate 4 (- 100)"
    using periodogram_zeros[of "[0, 3 / 4, 3 / 4, 0]" 4]
    by (simp add: raw_spectrum_db_def example_processor_facts example_window
        fftshift_replicate power_to_db_values)
  from process_samples_fits[OF example_processor_facts(2) previous_fits_example,
      of "replicate 4 0"]
  show ?thesis
    unfolding raw by (auto simp: example_processor_facts)
qed

theorem long_chunk_averaging_witness:
  "configured example_processor \<and> overlap example_processor = 1 / 2
   \<and> even (fft_size example_processor)
   \<and> fft_size example_processor < int (length (replicate 6 (0::complex)))
   \<and> process_samples example_processor (replicate 6 0) =
       deliver example_processor
         (averaged_spectrum_db (window example_processor) 4 2 (replicate 6 0))
   \<and> overlapping_frames 4 2 (replicate 6 (0::complex)) = [replicate 4 0, replicate 4 0]"
proof -
  have e: "even (fft_size example_processor)" by (simp add: example_processor_facts)
  have l: "fft_size example_processor < int (length (replicate 6 (0::complex)))"
    by (simp add: example_processor_facts)
  have u: "[0..<6] = [0, 1, 2, 3, 4, 5 :: nat]" by code_simp
  have fr: "overlapping_frames 4 2 (replicate 6 (0::complex)) = [replicate 4 0, replicate 4 0]"
    unfolding overlapping_frames_def length_replicate u by simp
  have "process_samples example_processor (replicate 6 0) =
       deliver example_processor
         (averaged_spectrum_db (window example_processor) (nat (fft_size example_processor))
            (nat (fft_size example_processor) div 2) (replicate 6 0))"
    using long_chunk_averaging[OF example_processor_facts(2,7) e, of "replicate 6 0",
        THEN conjunct1] l by blast
  then show ?thesis
    using example_processor_facts(2,7) e l fr by (simp add: example_processor_facts)
qed


section \<open>Spectrum processor: shape of the output after a change of FFT size\<close>

lemma update_config_keeps_previous:
  "previous_spectrum (snd (update_config s new_rate new_center new_size)) = previous_spectrum s"
  by (auto simp: update_config_def update_fft_size_def update_frequency_array_def Let_def
      split: option.splits sum.splits prod.splits if_splits)

lemma stale_previous_empty:
  assumes "configured s" "previous_spectrum s = Some prev" "enable_smoothing s"
    and "length prev \<noteq> nat (fft_size s)" "length prev \<noteq> 1" "fft_size s \<noteq> 1"
  shows "process_samples s samples = (([], []), s)"
proof -
  let ?raw = "raw_spectrum_db (window s) (nat (fft_size s)) (hop_size s) samples"
  have lw: "length (window s) = nat (fft_size s)" and N: "1 \<le> fft_size s"
    using assms(1) by (simp_all add: configured_def)
  have l: "length ?raw = nat (fft_size s)" by (rule raw_spectrum_db_length[OF lw])
  have n1: "nat (fft_size s) \<noteq> 1" using assms(6) N by linarith
  have "np_broadcast (+) (map (\<lambda>x. smoothing_factor s * x) ?raw)
          (map (\<lambda>x. (1 - smoothing_factor s) * x) prev) = Inl ValueError"
    using l assms(4,5) n1 by (simp add: np_broadcast_def)
  then have "smooth_and_store s ?raw = Inl ValueError"
    using assms(2,3) by (simp add: smooth_and_store_def)
  then show ?thesis
    unfolding process_samples_value[OF assms(1)] deliver_def by simp
qed

text \<open>
  C2. Every spectrum is meant to carry one frequency and one power value per FFT bin.
  \<open>update_config\<close> rebuilds the window, the frequency axis and the overlap buffer for a new
  FFT size, but leaves \<open>previous_spectrum\<close> as it was.  Once a spectrum has been delivered,
  a change of the FFT size to a different value (both sizes above one) therefore makes the
  smoothing step fail on arrays of different lengths; \<open>process_samples\<close> catches the error
  and returns two empty arrays, for every later chunk, and the state never recovers.
\<close>

theorem size_change_empties_spectrum:
  assumes "configured s" and "previous_spectrum s = Some prev"
    and "length prev = nat (fft_size s)" and "enable_smoothing s"
    and "1 < fft_size s" and "1 < n" and "n \<noteq> fft_size s"
  shows "\<exists>s'. update_config s None None (Some n) = (None, s')
           \<and> configured s' \<and> fft_size s' = n
           \<and> (\<forall>samples. process_samples s' samples = (([], []), s'))"
proof -
  from update_config_size[OF assms(1) _ assms(7)] assms(6) obtain s' where
    u: "update_config s None None (Some n) = (None, s')" and c: "configured s'"
    and f: "fft_size s' = n" and p: "previous_spectrum s' = previous_spectrum s"
    and e: "enable_smoothing s' = enable_smoothing s"
    by force
  have l: "length prev \<noteq> nat (fft_size s')" using assms(3,5,6,7) f by linarith
  have l1: "length prev \<noteq> 1" using assms(3,5) by linarith
  have n1: "fft_size s' \<noteq> 1" using f assms(6) by simp
  have "process_samples s' samples = (([], []), s')" for samples
    by (rule stale_previous_empty[OF c _ _ l l1 n1]) (simp_all add: p e assms)
  with u c f show ?thesis by blast
qed

theorem size_change_empties_spectrum_witness:
  "configured (snd (process_samples example_processor (replicate 4 0)))
   \<and> previous_spectrum (snd (process_samples example_processor (replicate 4 0)))
       = Some (replicate 4 (- 100))
   \<and> enable_smoothing (snd (process_samples example_processor (replicate 4 0)))
   \<and> fft_size (snd (process_samples example_processor (replicate 4 0))) = 4
   \<and> fst (update_config (snd (process_samples example_processor (replicate 4 0)))
             None None (Some 8)) = None
   \<and> fft_size (snd (update_config (snd (process_samples example_processor (replicate 4 0)))
                        None None (Some 8))) = 8
   \<and> fst (process_samples
             (snd (update_config (snd (process_samples example_processor (replicate 4 0)))
                     None None (Some 8)))
             (replicate 8 0)) = ([], [])"
proof -
  define s1 where "s1 = snd (process_samples example_processor (replicate 4 0))"
  have s1: "s1 = example_processor\<lparr>previous_spectrum := Some (replicate 4 (- 100))\<rparr>"
    by (simp add: s1_def first_spectrum_example)
  have c: "configured s1"
    unfolding s1_def
    by (rule process_samples_keeps(1)[OF example_processor_facts(2) previous_fits_example])
  have p: "previous_spectrum s1 = Some (replicate 4 (- 100))" by (simp add: s1)
  have e: "enable_smoothing s1" by (simp add: s1 example_processor_facts)
  have f: "fft_size s1 = 4" by (simp add: s1 example_processor_facts)
  from size_change_empties_spectrum[OF c p _ e, of 8] f obtain s' where
    "update_config s1 None None (Some 8) = (None, s')" "fft_size s' = 8"
    "\<forall>samples. process_samples s' samples = (([], []), s')"
    by auto
  then show ?thesis
    using c p e f unfolding s1_def[symmetric] by simp
qed


section \<open>Spectrum processor: temporal smoothing\<close>

lemma process_samples_smoothed:
  assumes "configured s" and "previous_fits s" and "previous_spectrum s = Some prev"
    and "enable_smoothing s" and "smoothing_factor s = 0.3"
  shows "process_samples s samples =
           ((frequencies s,
             map2 (\<lambda>new previous. 0.3 * new + 0.7 * previous)
               (raw_spectrum_db (window s) (nat (fft_size s)) (hop_size s) samples) prev),
            s\<lparr>previous_spectrum :=
                 Some (map2 (\<lambda>new previous. 0.3 * new + 0.7 * previous)
                         (raw_spectrum_db (window s) (nat (fft_size s)) (hop_size s) samples)
                         prev)\<rparr>)"
proof -
  let ?raw = "raw_spectrum_db (window s) (nat (fft_size s)) (hop_size s) samples"
  have a: "smoothing_factor s = 0.3" by (rule assms(5))
  have b: "1 - (0.3::real) = 0.7" by simp
  from process_samples_fits[OF assms(1,2), of samples] assms(3,4) obtain db where
    r: "process_samples s samples = ((frequencies s, db), s\<lparr>previous_spectrum := Some db\<rparr>)"
    and d: "db = map2 (\<lambda>x y. smoothing_factor s * x + (1 - smoothing_factor s) * y) ?raw prev"
    by auto
  have "db = map2 (\<lambda>new previous. 0.3 * new + 0.7 * previous) ?raw prev"
    unfolding d a b ..
  with r show ?thesis by (simp only:)
qed

text \<open>
  C3. The first spectrum of a processor (no previous spectrum stored) is delivered
  unsmoothed and stored.  Every later spectrum, with smoothing enabled at the default factor,
  is \<open>0.3 * new + 0.7 * previous\<close> bin by bin, and is stored in turn.  \<open>update_config\<close>
  never clears the stored spectrum: after a change of sample rate or centre frequency the
  processor is still consistent and the next spectrum is smoothed against the one computed
  before the change.
\<close>

theorem smoothing_against_previous:
  assumes "configured s" and "previous_fits s"
  shows
   "(previous_spectrum s = None \<longrightarrow>
       process_samples s samples =
         ((frequencies s, raw_spectrum_db (window s) (nat (fft_size s)) (hop_size s) samples),
          s\<lparr>previous_spectrum :=
               Some (raw_spectrum_db (window s) (nat (fft_size s)) (hop_size s) samples)\<rparr>))
    \<and> (\<forall>prev. previous_spectrum s = Some prev \<and> enable_smoothing s
                \<and> smoothing_factor s = 0.3 \<longrightarrow>
         process_samples s samples =
           ((frequencies s,
             map2 (\<lambda>new previous. 0.3 * new + 0.7 * previous)
               (raw_spectrum_db (window s) (nat (fft_size s)) (hop_size s) samples) prev),
            s\<lparr>previous_spectrum :=
                 Some (map2 (\<lambda>new previous. 0.3 * new + 0.7 * previous)
                         (raw_spectrum_db (window s) (nat (fft_size s)) (hop_size s) samples)
                         prev)\<rparr>))
    \<and> previous_spectrum (snd (update_config s new_rate new_center new_size))
        = previous_spectrum s
    \<and> (0 < rate \<longrightarrow>
         configured (snd (update_config s (Some rate) new_center None))
         \<and> previous_fits (snd (update_config s (Some rate) new_center None))
         \<and> sample_rate (snd (update_config s (Some rate) new_center None)) = rate)"
proof (intro conjI allI impI)
  assume "previous_spectrum s = None"
  with process_samples_fits[OF assms, of samples]
  show "process_samples s samples =
         ((frequencies s, raw_spectrum_db (window s) (nat (fft_size s)) (hop_size s) samples),
          s\<lparr>previous_spectrum :=
               Some (raw_spectrum_db (window s) (nat (fft_size s)) (hop_size s) samples)\<rparr>)"
    by auto
next
  fix prev
  assume h: "previous_spectrum s = Some prev \<and> enable_smoothing s \<and> smoothing_factor s = 0.3"
  then have "previous_spectrum s = Some prev" "enable_smoothing s" "smoothing_factor s = 0.3"
    by blast+
  then show "process_samples s samples =
           ((frequencies s,
             map2 (\<lambda>new previous. 0.3 * new + 0.7 * previous)
               (raw_spectrum_db (window s) (nat (fft_size s)) (hop_size s) samples) prev),
            s\<lparr>previous_spectrum :=
                 Some (map2 (\<lambda>new previous. 0.3 * new + 0.7 * previous)
                         (raw_spectrum_db (window s) (nat (fft_size s)) (hop_size s) samples)
                         prev)\<rparr>)"
    by (rule process_samples_smoothed[OF assms])
next
  show "previous_spectrum (snd (update_config s new_rate new_center new_size))
        = previous_spectrum s"
    by (rule update_config_keeps_previous)
next
  assume r: "0 < rate"
  from update_config_rate_center[OF assms(1), of "Some rate" new_center] r obtain s' where
    u: "update_config s (Some rate) new_center None = (None, s')" and c: "configured s'"
    and f: "fft_size s' = fft_size s" and p: "previous_spectrum s' = previous_spectrum s"
    and sr: "sample_rate s' = rate"
    by auto
  show "configured (snd (update_config s (Some rate) new_center None))" using u c by simp
  show "previous_fits (snd (update_config s (Some rate) new_center None))"
  proof -
    have "previous_fits s'" using assms(2) unfolding previous_fits_def f p .
    then show ?thesis using u by simp
  qed
  show "sample_rate (snd (update_config s (Some rate) new_center None)) = rate"
    using u sr by simp
qed

theorem smoothing_against_previous_witness:
  "configured example_processor \<and> previous_fits example_processor
   \<and> previous_spectrum example_processor = None
   \<and> snd (fst (process_samples example_processor [0, 4 / 3, 0, 0])) = [0, 0, 0, 0]
   \<and> previous_spectrum (snd (process_samples example_processor [0, 4 / 3, 0, 0]))
       = Some [0, 0, 0, 0]
   \<and> previous_spectrum (snd (update_config example_processor (Some 2000000) None None)) = None
   \<and> (0::real) < 2000000
   \<and> configured (snd (update_config example_processor (Some 2000000) None None))"
proof -
  note t = smoothing_against_previous[OF example_processor_facts(2) previous_fits_example,
      where samples = "[0, 4 / 3, 0, 0]" and new_rate = "Some 2000000" and new_center = None
        and new_size = None and rate = 2000000]
  have raw: "raw_spectrum_db (window example_processor) (nat (fft_size example_processor))
               (hop_size example_processor) [0, 4 / 3, 0, 0] = [0, 0, 0, 0]"
    using raw_unit_example by (simp add: example_window example_processor_facts)
  have p: "process_samples example_processor [0, 4 / 3, 0, 0] =
         ((frequencies example_processor, [0, 0, 0, 0]),
          example_processor\<lparr>previous_spectrum := Some [0, 0, 0, 0]\<rparr>)"
    using t[THEN conjunct1] example_processor_facts(3) unfolding raw by blast
  have k: "previous_spectrum (snd (update_config example_processor (Some 2000000) None None))
             = None"
    using t[THEN conjunct2, THEN conjunct2, THEN conjunct1] example_processor_facts(3) by simp
  have c: "configured (snd (update_config example_processor (Some 2000000) None None))"
    using t[THEN conjunct2, THEN conjunct2, THEN conjunct2] by simp
  show ?thesis
    using example_processor_facts(2,3) previous_fits_example p k c by simp
qed

theorem smoothing_reset_counterexample:
  "snd (fst (process_samples
               (snd (update_config (snd (process_samples example_processor (replicate 4 0)))
                       (Some 2000000) None None))
               [0, 4 / 3, 0, 0])) = [- 70, - 70, - 70, - 70]
   \<and> snd (fst (process_samples example_processor [0, 4 / 3, 0, 0])) = [0, 0, 0, 0]
   \<and> sample_rate (snd (update_config (snd (process_samples example_processor (replicate 4 0)))
                           (Some 2000000) None None)) = 2000000"
proof -
  define s1 where "s1 = snd (process_samples example_processor (replicate 4 0))"
  have s1: "s1 = example_processor\<lparr>previous_spectrum := Some (replicate 4 (- 100))\<rparr>"
    by (simp add: s1_def first_spectrum_example)
  have c1: "configured s1"
    unfolding s1_def
    by (rule process_samples_keeps(1)[OF example_processor_facts(2) previous_fits_example])
  from update_config_rate_center[OF c1, of "Some 2000000" None] obtain s2 where
    u: "update_config s1 (Some 2000000) None None = (None, s2)" and c2: "configured s2"
    and f2: "fft_size s2 = fft_size s1" and w2: "window s2 = window s1"
    and p2: "previous_spectrum s2 = previous_spectrum s1"
    and e2: "enable_smoothing s2 = enable_smoothing s1"
    and a2: "smoothing_factor s2 = smoothing_factor s1"
    and r2: "sample_rate s2 = 2000000"
    by auto
  have prev: "previous_spectrum s2 = Some (replicate 4 (- 100))" by (simp add: p2 s1)
  have fits2: "previous_fits s2"
    by (simp add: previous_fits_def prev f2 s1 example_processor_facts list_all_iff)
  have raw2: "raw_spectrum_db (window s2) (nat (fft_size s2)) (hop_size s2) [0, 4 / 3, 0, 0]
                = [0, 0, 0, 0]"
    using raw_unit_example by (simp add: w2 f2 s1 example_window example_processor_facts)
  have sm: "enable_smoothing s2 \<and> smoothing_factor s2 = 0.3"
    by (simp add: e2 a2 s1 example_processor_facts)
  have "process_samples s2 [0, 4 / 3, 0, 0] =
           ((frequencies s2,
             map2 (\<lambda>new previous. 0.3 * new + 0.7 * previous) [0, 0, 0, 0]
               (replicate 4 (- 100))),
            s2\<lparr>previous_spectrum :=
                 Some (map2 (\<lambda>new previous. 0.3 * new + 0.7 * previous) [0, 0, 0, 0]
                         (replicate 4 (- 100)))\<rparr>)"
    using process_samples_smoothed[OF c2 fits2 prev sm[THEN conjunct1] sm[THEN conjunct2],
        of "[0, 4 / 3, 0, 0]"]
    unfolding raw2 .
  then have a: "snd (fst (process_samples s2 [0, 4 / 3, 0, 0])) = [- 70, - 70, - 70, - 70]"
    by (simp add: numeral_eq_Suc)
  have raw: "raw_spectrum_db (window example_processor) (nat (fft_size example_processor))
               (hop_size example_processor) [0, 4 / 3, 0, 0] = [0, 0, 0, 0]"
    using raw_unit_example by (simp add: example_window example_processor_facts)
  have b: "snd (fst (process_samples example_processor [0, 4 / 3, 0, 0])) = [0, 0, 0, 0]"
    using process_samples_fits[OF example_processor_facts(2) previous_fits_example,
        of "[0, 4 / 3, 0, 0]"]
    unfolding raw by (auto simp: example_processor_facts)
  show ?thesis
    using a b u r2 unfolding s1_def[symmetric] by simp
qed

end
